theory Spec2Isabelle
  imports Main "HOL-Library.Word" "HOL-Library.Monad_Syntax"
begin

section \<open>pvr\_sync.c: the data model\<close>

text \<open>
  Kernel objects live in stores indexed by their address; a C pointer is an address,
  and a pointer that may be NULL is an optional address. Reading through NULL or
  through an address that holds no object is a kernel fault: every operation returns
  an option, and \<open>None\<close> is that fault. The results of the collaborators
  the driver calls (kmalloc, SyncPrimAlloc, get\_unused\_fd, copy\_to\_user, ...) are
  parameters of the operation that calls them.
\<close>

type_synonym u32 = "32 word"
type_synonym u8 = "8 word"
type_synonym addr = nat

datatype PVRSRV_ERROR =
    PVRSRV_OK
  | PVRSRV_ERROR_OUT_OF_MEMORY
  | PVRSRV_ERROR_HANDLE_NOT_FOUND
  | PVRSRV_ERROR_RESOURCE_UNAVAILABLE
  | PVRSRV_ERROR_INVALID_PARAMS
  | PVRSRV_ERROR_SERVICES nat

definition SYNC_MAX_POOL_SIZE :: int where
  "SYNC_MAX_POOL_SIZE = 10"

definition SYNC_TL_TYPE :: u8 where "SYNC_TL_TYPE = 0"
definition SYNC_PT_FENCE_TYPE :: u8 where "SYNC_PT_FENCE_TYPE = 1"
definition SYNC_PT_CLEANUP_TYPE :: u8 where "SYNC_PT_CLEANUP_TYPE = 2"
definition SYNC_PT_FOREIGN_FENCE_TYPE :: u8 where "SYNC_PT_FOREIGN_FENCE_TYPE = 3"
definition SYNC_PT_FOREIGN_CLEANUP_TYPE :: u8 where "SYNC_PT_FOREIGN_CLEANUP_TYPE = 4"

text \<open>
  struct pvr\_sync\_native\_sync\_prim. \<open>lin_value\<close> is the word behind
  \<open>client_sync->pui32LinAddr\<close>, the counter the hardware writes. The fields
  \<open>id\<close>, \<open>type\<close> and \<open>class\<close> carry a prefix because their
  names are taken in HOL.
\<close>

record pvr_sync_native_sync_prim =
  lin_value :: u32
  next_value :: u32
  prim_id :: u32
  vaddr :: u32
  prim_type :: u8
  prim_class :: string

text \<open>struct pvr\_sync\_timeline; \<open>tl_name\<close> is \<open>obj.name\<close>.\<close>

record pvr_sync_timeline =
  tl_name :: string
  timeline_sync :: "addr option"
  fencing_enabled :: bool

text \<open>
  struct pvr\_sync\_kernel\_pair. Exactly one owner points to a pair (a sync data, a
  foreign waiter, or the defer-free list), so the pair is held by value inside its owner.
\<close>

record pvr_sync_kernel_pair =
  fence_sync :: addr
  cleanup_sync :: "addr option"

text \<open>struct pvr\_sync\_data, shared by the duplicates of a sync point.\<close>

record pvr_sync_data =
  kernel :: "pvr_sync_kernel_pair option"
  timeline_fence_value :: u32
  timeline_update_value :: u32
  refcount :: int

text \<open>struct pvr\_sync\_alloc\_data, the private data of an alloc-sync file.\<close>

record pvr_sync_alloc_data =
  ad_sync_data :: "addr option"
  ad_timeline :: addr

text \<open>
  struct pvr\_sync\_pt on top of the framework's struct sync\_pt: \<open>parent\<close> is the
  timeline, \<open>parent_pvr\<close> says whether \<open>parent->ops\<close> is
  \<open>pvr_sync_timeline_ops\<close>, \<open>pt_status\<close> is the framework's status and
  \<open>pt_sync_data\<close> the shared private data (meaningful for this driver's points).
\<close>

record pvr_sync_pt =
  parent :: addr
  parent_pvr :: bool
  pt_status :: int
  pt_sync_data :: "addr option"

text \<open>struct sync\_fence: its name and the list behind \<open>pt_list_head\<close>.\<close>

record sync_fence =
  fence_name :: string
  pt_list :: "pvr_sync_pt list"

datatype fd_file =
    Alloc_file pvr_sync_alloc_data
  | Fence_file sync_fence
  | Other_file

text \<open>The driver-global data, the stores and the file-descriptor table.\<close>

record state =
  prims :: "addr \<rightharpoonup> pvr_sync_native_sync_prim"
  sync_datas :: "addr \<rightharpoonup> pvr_sync_data"
  timelines :: "addr \<rightharpoonup> pvr_sync_timeline"
  files :: "int \<rightharpoonup> fd_file"
  sync_pool_free_list :: "addr list"
  sync_pool_active_list :: "addr list"
  sync_pool_size :: int
  sync_pool_created :: u32
  sync_pool_reused :: u32
  sync_id :: u32
  sync_prim_free_list :: "pvr_sync_kernel_pair list"

section \<open>Sync prim accessors\<close>

definition set_sync_value :: "addr \<Rightarrow> u32 \<Rightarrow> state \<Rightarrow> state option" where
  "set_sync_value sync v s =
     (case prims s sync of
        None \<Rightarrow> None
      | Some p \<Rightarrow> Some (s\<lparr>prims := (prims s)(sync \<mapsto> p\<lparr>lin_value := v\<rparr>)\<rparr>))"

definition get_sync_value :: "addr \<Rightarrow> state \<Rightarrow> u32 option" where
  "get_sync_value sync s = map_option lin_value (prims s sync)"

definition complete_sync :: "addr \<Rightarrow> state \<Rightarrow> state option" where
  "complete_sync sync s =
     (case prims s sync of
        None \<Rightarrow> None
      | Some p \<Rightarrow> Some (s\<lparr>prims := (prims s)(sync \<mapsto> p\<lparr>lin_value := next_value p\<rparr>)\<rparr>))"

definition is_sync_met :: "addr \<Rightarrow> state \<Rightarrow> int option" where
  "is_sync_met sync s =
     (case prims s sync of
        None \<Rightarrow> None
      | Some p \<Rightarrow> Some (if lin_value p = next_value p then 1 else 0))"

section \<open>The sync prim pool\<close>

text \<open>
  What the allocation of a new prim meets: kmalloc fails, or it returns the address of
  the new structure, and then SyncPrimAlloc returns its error code and
  SyncPrimGetFirmwareAddr the firmware address. The memory kmalloc returns is not
  initialised; sync\_pool\_get writes every field of the structure before it returns.
\<close>

datatype prim_alloc =
    Kmalloc_failed
  | Kmalloc_ok addr PVRSRV_ERROR u32

text \<open>
  sync\_pool\_get. The result is the returned error, the pointer stored through
  \<open>_sync\<close> (\<open>None\<close> when nothing is stored) and the new state.
  \<open>strncpy\<close> keeps at most \<open>sizeof(sync->class) = 32\<close> characters of the name.
  \<open>list_first_entry\<close> takes the head of the free list.
\<close>

definition sync_pool_get ::
  "prim_alloc \<Rightarrow> string \<Rightarrow> u8 \<Rightarrow> state \<Rightarrow> (PVRSRV_ERROR \<times> addr option \<times> state) option"
where
  "sync_pool_get env class_name type s =
     (let finish = (\<lambda>sync p s1.
            let new_id = sync_id s1 + 1 in
            Some (PVRSRV_OK, Some sync,
              s1\<lparr>sync_id := new_id,
                  prims := (prims s1)(sync \<mapsto>
                    p\<lparr>prim_id := new_id, prim_type := type,
                       prim_class := take 32 class_name,
                       lin_value := 0, next_value := 0\<rparr>)\<rparr>))
      in
      case sync_pool_free_list s of
        [] \<Rightarrow>
          (case env of
             Kmalloc_failed \<Rightarrow> Some (PVRSRV_ERROR_OUT_OF_MEMORY, None, s)
           | Kmalloc_ok sync error fw \<Rightarrow>
               if error \<noteq> PVRSRV_OK then Some (error, None, s)
               else
                 finish sync
                   \<lparr>lin_value = 0, next_value = 0, prim_id = 0, vaddr = fw,
                    prim_type = 0, prim_class = []\<rparr>
                   (s\<lparr>sync_pool_active_list := sync_pool_active_list s @ [sync],
                      sync_pool_created := sync_pool_created s + 1\<rparr>))
      | sync # rest \<Rightarrow>
          (case prims s sync of
             None \<Rightarrow> None
           | Some p \<Rightarrow>
               finish sync p
                 (s\<lparr>sync_pool_free_list := rest,
                    sync_pool_active_list := sync_pool_active_list s @ [sync],
                    sync_pool_size := sync_pool_size s - 1,
                    sync_pool_reused := sync_pool_reused s + 1\<rparr>)))"

text \<open>
  sync\_pool\_put. \<open>list_move\<close> unlinks the prim from the list it is on and links
  it at the head of the free list; \<open>list_del\<close>, \<open>SyncPrimFree\<close> and
  \<open>kfree\<close> remove it from the store.
\<close>

definition sync_pool_put :: "addr \<Rightarrow> state \<Rightarrow> state option" where
  "sync_pool_put sync s =
     (if sync_pool_size s < SYNC_MAX_POOL_SIZE then
        (case set_sync_value sync 0xffffffff s of
           None \<Rightarrow> None
         | Some s1 \<Rightarrow>
             Some (s1\<lparr>sync_pool_free_list := sync # remove1 sync (sync_pool_free_list s1),
                      sync_pool_active_list := remove1 sync (sync_pool_active_list s1),
                      sync_pool_size := sync_pool_size s1 + 1\<rparr>))
      else
        (case set_sync_value sync 0xdeadbeef s of
           None \<Rightarrow> None
         | Some s1 \<Rightarrow>
             Some (s1\<lparr>sync_pool_free_list := remove1 sync (sync_pool_free_list s1),
                      sync_pool_active_list := remove1 sync (sync_pool_active_list s1),
                      prims := (prims s1)(sync := None)\<rparr>)))"

section \<open>Timeline operations\<close>

text \<open>Reading \<open>p->field\<close> of a sync data through a pointer that may be NULL.\<close>

definition deref_sync_data :: "addr option \<Rightarrow> state \<Rightarrow> pvr_sync_data option" where
  "deref_sync_data p s = (case p of None \<Rightarrow> None | Some a \<Rightarrow> sync_datas s a)"

text \<open>pvr\_sync\_has\_signaled: idle syncs (no kernel pair) are always signaled.\<close>

definition pvr_sync_has_signaled :: "pvr_sync_pt \<Rightarrow> state \<Rightarrow> int option" where
  "pvr_sync_has_signaled pvr_pt s =
     (case deref_sync_data (pt_sync_data pvr_pt) s of
        None \<Rightarrow> None
      | Some sd \<Rightarrow>
          (case kernel sd of
             None \<Rightarrow> Some 1
           | Some k \<Rightarrow> is_sync_met (fence_sync k) s))"

text \<open>
  pvr\_sync\_compare. The kernel is built with wrapping signed arithmetic, so
  \<open>(s32)a1 - (s32)b1\<close> is the signed reading of the 32-bit difference.
\<close>

definition pvr_sync_compare :: "pvr_sync_pt \<Rightarrow> pvr_sync_pt \<Rightarrow> state \<Rightarrow> int option" where
  "pvr_sync_compare a b s =
     (case (deref_sync_data (pt_sync_data a) s, deref_sync_data (pt_sync_data b) s) of
        (Some sa, Some sb) \<Rightarrow>
          (let a1 = timeline_update_value sa; b1 = timeline_update_value sb in
           if a1 = b1 then Some 0
           else Some (if sint (a1 - b1) < 0 then - 1 else 1))
      | _ \<Rightarrow> None)"

section \<open>Sync data and sync points\<close>

text \<open>
  What pvr\_sync\_create\_sync\_data meets: the address kzalloc returns for the sync data
  (NULL on failure), whether kzalloc of the kernel pair succeeds, and the allocation of
  the fence prim.
\<close>

record sync_data_env =
  kzalloc_sync_data :: "addr option"
  kzalloc_kernel :: bool
  fence_prim_alloc :: prim_alloc

definition pvr_sync_create_sync_data ::
  "sync_data_env \<Rightarrow> addr \<Rightarrow> state \<Rightarrow> (addr option \<times> state) option"
where
  "pvr_sync_create_sync_data env timeline s =
     (case kzalloc_sync_data env of
        None \<Rightarrow> Some (None, s)
      | Some sync_data \<Rightarrow>
          if \<not> kzalloc_kernel env then Some (None, s)
          else
            (case timelines s timeline of
               None \<Rightarrow> None
             | Some tlo \<Rightarrow>
                 (case sync_pool_get (fence_prim_alloc env) (tl_name tlo) SYNC_PT_FENCE_TYPE s of
                    None \<Rightarrow> None
                  | Some (error, sync, s1) \<Rightarrow>
                      if error \<noteq> PVRSRV_OK then Some (None, s1)
                      else
                        (case sync of
                           None \<Rightarrow> None
                         | Some fs \<Rightarrow>
                             Some (Some sync_data,
                               s1\<lparr>sync_datas := (sync_datas s1)(sync_data \<mapsto>
                                    \<lparr>kernel = Some \<lparr>fence_sync = fs, cleanup_sync = None\<rparr>,
                                     timeline_fence_value = 0,
                                     timeline_update_value = 0,
                                     refcount = 1\<rparr>)\<rparr>)))))"

text \<open>
  pvr\_sync\_defer\_free links the pair at the tail of the defer-free list; the work it
  queues runs later, in the worker.
\<close>

definition pvr_sync_defer_free :: "pvr_sync_kernel_pair \<Rightarrow> state \<Rightarrow> state" where
  "pvr_sync_defer_free k s = s\<lparr>sync_prim_free_list := sync_prim_free_list s @ [k]\<rparr>"

text \<open>
  pvr\_sync\_create\_sync; the flag is the success of the framework's sync\_pt\_create,
  which returns a point of the timeline with status 0 (active).
\<close>

definition pvr_sync_create_sync ::
  "bool \<Rightarrow> addr \<Rightarrow> addr option \<Rightarrow> state \<Rightarrow> (pvr_sync_pt option \<times> state) option"
where
  "pvr_sync_create_sync sync_pt_create_ok timeline sync_data s =
     (if sync_pt_create_ok then
        Some (Some \<lparr>parent = timeline, parent_pvr = True, pt_status = 0,
                     pt_sync_data = sync_data\<rparr>, s)
      else
        (case sync_data of
           None \<Rightarrow> None
         | Some sda \<Rightarrow>
             (case sync_datas s sda of
                None \<Rightarrow> None
              | Some sd \<Rightarrow>
                  (case kernel sd of
                     None \<Rightarrow> Some (None, s\<lparr>sync_datas := (sync_datas s)(sda := None)\<rparr>)
                   | Some k \<Rightarrow>
                       (case timelines s timeline of
                          None \<Rightarrow> None
                        | Some tlo \<Rightarrow>
                            (case timeline_sync tlo of
                               None \<Rightarrow> None
                             | Some ts \<Rightarrow>
                                 (case complete_sync ts s of
                                    None \<Rightarrow> None
                                  | Some s1 \<Rightarrow>
                                      (case sync_pool_put (fence_sync k) s1 of
                                         None \<Rightarrow> None
                                       | Some s2 \<Rightarrow>
                                           Some (None,
                                             s2\<lparr>sync_datas :=
                                                  (sync_datas s2)(sda := None)\<rparr>)))))))))"

text \<open>pvr\_sync\_free\_sync: only the last reference frees.\<close>

definition pvr_sync_free_sync :: "pvr_sync_pt \<Rightarrow> state \<Rightarrow> state option" where
  "pvr_sync_free_sync pvr_pt s =
     (case pt_sync_data pvr_pt of
        None \<Rightarrow> None
      | Some sda \<Rightarrow>
          (case sync_datas s sda of
             None \<Rightarrow> None
           | Some sd \<Rightarrow>
               if refcount sd - 1 \<noteq> 0 then
                 Some (s\<lparr>sync_datas := (sync_datas s)(sda \<mapsto> sd\<lparr>refcount := refcount sd - 1\<rparr>)\<rparr>)
               else
                 (let s1 = (case kernel sd of None \<Rightarrow> s | Some k \<Rightarrow> pvr_sync_defer_free k s)
                  in Some (s1\<lparr>sync_datas := (sync_datas s1)(sda := None)\<rparr>))))"

text \<open>pvr\_sync\_dup; the flag is the success of sync\_pt\_create.\<close>

definition pvr_sync_dup :: "bool \<Rightarrow> pvr_sync_pt \<Rightarrow> state \<Rightarrow> (pvr_sync_pt option \<times> state) option" where
  "pvr_sync_dup sync_pt_create_ok pvr_pt_a s =
     (if \<not> sync_pt_create_ok then Some (None, s)
      else
        (case pt_sync_data pvr_pt_a of
           None \<Rightarrow> None
         | Some sda \<Rightarrow>
             (case sync_datas s sda of
                None \<Rightarrow> None
              | Some sd \<Rightarrow>
                  Some (Some \<lparr>parent = parent pvr_pt_a, parent_pvr = True, pt_status = 0,
                               pt_sync_data = Some sda\<rparr>,
                        s\<lparr>sync_datas := (sync_datas s)(sda \<mapsto> sd\<lparr>refcount := refcount sd + 1\<rparr>)\<rparr>))))"

text \<open>pvr\_sync\_free\_sync\_data: \<open>kfree(NULL)\<close> does nothing.\<close>

definition pvr_sync_free_sync_data :: "addr option \<Rightarrow> state \<Rightarrow> state option" where
  "pvr_sync_free_sync_data sync_data s =
     (case sync_data of
        None \<Rightarrow> Some s
      | Some sda \<Rightarrow>
          (case sync_datas s sda of
             None \<Rightarrow> None
           | Some sd \<Rightarrow>
               (let s1 = (case kernel sd of None \<Rightarrow> s | Some k \<Rightarrow> pvr_sync_defer_free k s)
                in Some (s1\<lparr>sync_datas := (sync_datas s1)(sda := None)\<rparr>))))"

section \<open>Alloc-sync files\<close>

text \<open>
  pvr\_sync\_alloc\_release, the release operation of the alloc-sync file behind
  descriptor \<open>fd\<close>; the file and its private data go away with it.
\<close>

definition pvr_sync_alloc_release :: "int \<Rightarrow> state \<Rightarrow> (int \<times> state) option" where
  "pvr_sync_alloc_release fd s =
     (case files s fd of
        Some (Alloc_file alloc_sync_data) \<Rightarrow>
          (let rolled =
             (case ad_sync_data alloc_sync_data of
                None \<Rightarrow> Some s
              | Some sda \<Rightarrow>
                  (case sync_datas s sda of
                     None \<Rightarrow> None
                   | Some sd \<Rightarrow>
                       (case kernel sd of
                          None \<Rightarrow> None
                        | Some k \<Rightarrow>
                            (case prims s (fence_sync k) of
                               None \<Rightarrow> None
                             | Some fp \<Rightarrow>
                                 if next_value fp = 0 then
                                   (case timelines s (ad_timeline alloc_sync_data) of
                                      None \<Rightarrow> None
                                    | Some tlo \<Rightarrow>
                                        (case timeline_sync tlo of
                                           None \<Rightarrow> None
                                         | Some ts \<Rightarrow>
                                             (case prims s ts of
                                                None \<Rightarrow> None
                                              | Some tp \<Rightarrow>
                                                  Some (s\<lparr>prims := (prims s)(ts \<mapsto>
                                                    tp\<lparr>next_value := timeline_fence_value sd\<rparr>)\<rparr>))))
                                 else Some s))))
           in
           case rolled of
             None \<Rightarrow> None
           | Some s1 \<Rightarrow>
               (case pvr_sync_free_sync_data (ad_sync_data alloc_sync_data) s1 of
                  None \<Rightarrow> None
                | Some s2 \<Rightarrow> Some (0, s2\<lparr>files := (files s2)(fd := None)\<rparr>)))
      | _ \<Rightarrow> None)"

text \<open>
  pvr\_sync\_alloc\_fence\_fdget: the private data of the file behind \<open>fd\<close> when
  its operations are \<open>pvr_alloc_sync_fops\<close>, NULL otherwise.
\<close>

definition pvr_sync_alloc_fence_fdget :: "int \<Rightarrow> state \<Rightarrow> pvr_sync_alloc_data option" where
  "pvr_sync_alloc_fence_fdget fd s =
     (case files s fd of Some (Alloc_file a) \<Rightarrow> Some a | _ \<Rightarrow> None)"

definition sync_fence_fdget :: "int \<Rightarrow> state \<Rightarrow> sync_fence option" where
  "sync_fence_fdget fd s =
     (case files s fd of Some (Fence_file f) \<Rightarrow> Some f | _ \<Rightarrow> None)"

section \<open>The control channel\<close>

definition EFAULT :: int where "EFAULT = 14"
definition ENOMEM :: int where "ENOMEM = 12"

text \<open>
  pvr\_sync\_open. The environment gives the name built from the task, the timeline
  sync\_timeline\_create returns (NULL on failure) and the allocation of the timeline prim.
  The name buffer has 32 bytes, so snprintf keeps 31 characters. When the prim cannot be
  allocated the timeline is destroyed again and never becomes visible. The result holds
  \<open>file->private_data\<close>.
\<close>

record open_env =
  op_name :: string
  op_timeline_create :: "addr option"
  op_prim_alloc :: prim_alloc

definition pvr_sync_open :: "open_env \<Rightarrow> state \<Rightarrow> (int \<times> addr option \<times> state) option" where
  "pvr_sync_open env s =
     (let name = take 31 (op_name env) in
      case op_timeline_create env of
        None \<Rightarrow> Some (- ENOMEM, None, s)
      | Some timeline \<Rightarrow>
          (case sync_pool_get (op_prim_alloc env) name SYNC_TL_TYPE s of
             None \<Rightarrow> None
           | Some (error, sync, s1) \<Rightarrow>
               if error \<noteq> PVRSRV_OK then Some (- ENOMEM, None, s1)
               else
                 Some (0, Some timeline,
                   s1\<lparr>timelines := (timelines s1)(timeline \<mapsto>
                        \<lparr>tl_name = name, timeline_sync = sync,
                         fencing_enabled = True\<rparr>)\<rparr>)))"

text \<open>
  pvr\_sync\_ioctl\_alloc\_fence. The environment: the descriptor get\_unused\_fd returns,
  the two access\_ok checks at entry, kzalloc of the alloc data, the creation of the sync
  data, anon\_inode\_getfile, and the access\_ok and copy\_to\_user of the reply. The
  result is the error, the reply copied to the user (bTimelineIdle, iFenceFd) when the
  copy happened, and the state.
\<close>

record alloc_fence_env =
  af_fd :: int
  af_access_read :: bool
  af_access_write :: bool
  af_kzalloc_alloc_data :: bool
  af_sync_data :: sync_data_env
  af_getfile :: bool
  af_access_reply :: bool
  af_copy_to_user :: bool

definition pvr_sync_ioctl_alloc_fence ::
  "alloc_fence_env \<Rightarrow> addr \<Rightarrow> state \<Rightarrow> (int \<times> (bool \<times> int) option \<times> state) option"
where
  "pvr_sync_ioctl_alloc_fence env timeline s =
     (if af_fd env < 0 then Some (- EFAULT, None, s)
      else if \<not> af_access_read env then Some (- EFAULT, None, s)
      else if \<not> af_access_write env then Some (- EFAULT, None, s)
      else if \<not> af_kzalloc_alloc_data env then Some (- ENOMEM, None, s)
      else
        (case pvr_sync_create_sync_data (af_sync_data env) timeline s of
           None \<Rightarrow> None
         | Some (None, s1) \<Rightarrow> Some (- ENOMEM, None, s1)
         | Some (Some sda, s1) \<Rightarrow>
             if \<not> af_getfile env then
               (case pvr_sync_free_sync_data (Some sda) s1 of
                  None \<Rightarrow> None
                | Some s2 \<Rightarrow> Some (- ENOMEM, None, s2))
             else
               (case timelines s1 timeline of
                  None \<Rightarrow> None
                | Some tlo \<Rightarrow>
                    (case timeline_sync tlo of
                       None \<Rightarrow> None
                     | Some ts \<Rightarrow>
                         (case (is_sync_met ts s1, prims s1 ts, sync_datas s1 sda) of
                            (Some met, Some tp, Some sd) \<Rightarrow>
                              (let bTimelineIdle = (met \<noteq> 0 \<and> fencing_enabled tlo = False);
                                   fence_val = next_value tp;
                                   update_val = (if \<not> bTimelineIdle then fence_val + 1
                                                 else fence_val);
                                   s2 = s1\<lparr>prims := (prims s1)(ts \<mapsto>
                                               tp\<lparr>next_value := update_val\<rparr>),
                                           sync_datas := (sync_datas s1)(sda \<mapsto>
                                               sd\<lparr>timeline_fence_value := fence_val,
                                                  timeline_update_value := update_val\<rparr>)\<rparr>
                               in
                               if \<not> af_access_reply env \<or> \<not> af_copy_to_user env then
                                 (let s3 = s2\<lparr>prims := (prims s2)(ts \<mapsto>
                                               tp\<lparr>next_value := fence_val\<rparr>)\<rparr>
                                  in case pvr_sync_free_sync_data (Some sda) s3 of
                                       None \<Rightarrow> None
                                     | Some s4 \<Rightarrow> Some (- EFAULT, None, s4))
                               else
                                 Some (0, Some (bTimelineIdle, af_fd env),
                                   s2\<lparr>files := (files s2)(af_fd env \<mapsto>
                                        Alloc_file \<lparr>ad_sync_data = Some sda,
                                                    ad_timeline = timeline\<rparr>)\<rparr>))
                          | _ \<Rightarrow> None)))))"

text \<open>
  pvr\_sync\_ioctl\_create\_fence. The environment: get\_unused\_fd, access\_ok,
  copy\_from\_user (the request: iAllocFenceFd and szName, or a failed copy),
  sync\_pt\_create, sync\_fence\_create, and the access\_ok and copy\_to\_user of the reply.
  The framework's sync\_pt\_free and sync\_fence\_put release a point through the
  timeline's \<open>free_pt\<close> operation, which is pvr\_sync\_free\_sync.
\<close>

record create_fence_env =
  cf_fd :: int
  cf_access_read :: bool
  cf_copy_from_user :: "(int \<times> string) option"
  cf_sync_pt_create :: bool
  cf_sync_fence_create :: bool
  cf_access_reply :: bool
  cf_copy_to_user :: bool

definition pvr_sync_ioctl_create_fence ::
  "create_fence_env \<Rightarrow> addr \<Rightarrow> state \<Rightarrow> (int \<times> int option \<times> state) option"
where
  "pvr_sync_ioctl_create_fence env timeline s =
     (if cf_fd env < 0 then Some (- EFAULT, None, s)
      else if \<not> cf_access_read env then Some (- EFAULT, None, s)
      else
        (case cf_copy_from_user env of
           None \<Rightarrow> Some (- EFAULT, None, s)
         | Some (iAllocFenceFd, szName) \<Rightarrow>
             (case pvr_sync_alloc_fence_fdget iAllocFenceFd s of
                None \<Rightarrow> Some (- EFAULT, None, s)
              | Some alloc_sync_data \<Rightarrow>
                  if ad_timeline alloc_sync_data \<noteq> timeline then Some (- EFAULT, None, s)
                  else
                    (let sync_data = ad_sync_data alloc_sync_data;
                         s1 = s\<lparr>files := (files s)(iAllocFenceFd \<mapsto>
                                  Alloc_file (alloc_sync_data\<lparr>ad_sync_data := None\<rparr>))\<rparr>
                     in
                     case pvr_sync_create_sync (cf_sync_pt_create env) timeline sync_data s1 of
                       None \<Rightarrow> None
                     | Some (None, s2) \<Rightarrow>
                         (case pvr_sync_free_sync_data sync_data s2 of
                            None \<Rightarrow> None
                          | Some s3 \<Rightarrow> Some (- ENOMEM, None, s3))
                     | Some (Some sync_pt, s2) \<Rightarrow>
                         if \<not> cf_sync_fence_create env then
                           (case pvr_sync_free_sync sync_pt s2 of
                              None \<Rightarrow> None
                            | Some s3 \<Rightarrow>
                                (case pvr_sync_free_sync_data sync_data s3 of
                                   None \<Rightarrow> None
                                 | Some s4 \<Rightarrow> Some (- ENOMEM, None, s4)))
                         else if \<not> cf_access_reply env \<or> \<not> cf_copy_to_user env then
                           (case pvr_sync_free_sync sync_pt s2 of
                              None \<Rightarrow> None
                            | Some s3 \<Rightarrow>
                                (case pvr_sync_free_sync_data sync_data s3 of
                                   None \<Rightarrow> None
                                 | Some s4 \<Rightarrow> Some (- EFAULT, None, s4)))
                         else
                           Some (0, Some (cf_fd env),
                             s2\<lparr>files := (files s2)(cf_fd env \<mapsto>
                                  Fence_file \<lparr>fence_name = szName,
                                              pt_list = [sync_pt]\<rparr>)\<rparr>)))))"

text \<open>
  pvr\_sync\_ioctl\_enable\_fencing; the environment is access\_ok and the flag
  copy\_from\_user reads (or a failed copy).
\<close>

definition pvr_sync_ioctl_enable_fencing ::
  "bool \<Rightarrow> bool option \<Rightarrow> addr \<Rightarrow> state \<Rightarrow> (int \<times> state) option"
where
  "pvr_sync_ioctl_enable_fencing access_read copy_from_user timeline s =
     (if \<not> access_read then Some (- EFAULT, s)
      else
        (case copy_from_user of
           None \<Rightarrow> Some (- EFAULT, s)
         | Some bFencingEnabled \<Rightarrow>
             (case timelines s timeline of
                None \<Rightarrow> None
              | Some tlo \<Rightarrow>
                  Some (0, s\<lparr>timelines := (timelines s)(timeline \<mapsto>
                               tlo\<lparr>fencing_enabled := bFencingEnabled\<rparr>)\<rparr>))))"

section \<open>The query engine\<close>

text \<open>
  The caller's four output arrays and the two in/out counters. The arrays are C arrays
  of \<open>max_entries\<close> elements. A store at an index outside an array lands in
  memory that is not the array's: the array keeps its contents and the flag
  \<open>oob_store\<close> records that such a store happened.
\<close>

record ufo_buffers =
  fence_ufo_address :: "u32 list"
  fence_value :: "u32 list"
  fence_num :: u32
  update_ufo_address :: "u32 list"
  update_value :: "u32 list"
  update_num :: u32
  oob_store :: bool

definition array_store :: "u32 list \<Rightarrow> u32 \<Rightarrow> u32 \<Rightarrow> u32 list" where
  "array_store a i v = (if unat i < length a then a[unat i := v] else a)"

definition in_bounds :: "u32 list \<Rightarrow> u32 \<Rightarrow> bool" where
  "in_bounds a i = (unat i < length a)"

text \<open>
  \<open>fence_ufo_address[*fence_num].ui32Addr = a; fence_value[*fence_num] = v; ++*fence_num\<close>
  and the same for the update arrays.
\<close>

definition put_fence :: "u32 \<Rightarrow> u32 \<Rightarrow> ufo_buffers \<Rightarrow> ufo_buffers" where
  "put_fence a v b =
     b\<lparr>fence_ufo_address := array_store (fence_ufo_address b) (fence_num b) a,
       fence_value := array_store (fence_value b) (fence_num b) v,
       fence_num := fence_num b + 1,
       oob_store := (oob_store b \<or> \<not> in_bounds (fence_ufo_address b) (fence_num b)
                      \<or> \<not> in_bounds (fence_value b) (fence_num b))\<rparr>"

definition put_update :: "u32 \<Rightarrow> u32 \<Rightarrow> ufo_buffers \<Rightarrow> ufo_buffers" where
  "put_update a v b =
     b\<lparr>update_ufo_address := array_store (update_ufo_address b) (update_num b) a,
       update_value := array_store (update_value b) (update_num b) v,
       update_num := update_num b + 1,
       oob_store := (oob_store b \<or> \<not> in_bounds (update_ufo_address b) (update_num b)
                      \<or> \<not> in_bounds (update_value b) (update_num b))\<rparr>"

text \<open>pvr\_sync\_query\_sync\_update; the capacity test is unsigned 32-bit arithmetic.\<close>

definition pvr_sync_query_sync_update ::
  "int \<Rightarrow> u32 \<Rightarrow> ufo_buffers \<Rightarrow> state \<Rightarrow> (PVRSRV_ERROR \<times> ufo_buffers \<times> state) option"
where
  "pvr_sync_query_sync_update fd max_entries b s =
     (case pvr_sync_alloc_fence_fdget fd s of
        None \<Rightarrow> Some (PVRSRV_ERROR_HANDLE_NOT_FOUND, b, s)
      | Some alloc_sync_data \<Rightarrow>
          (case ad_sync_data alloc_sync_data of
             None \<Rightarrow> Some (PVRSRV_ERROR_RESOURCE_UNAVAILABLE, b, s)
           | Some sda \<Rightarrow>
               (case sync_datas s sda of
                  None \<Rightarrow> None
                | Some sd \<Rightarrow>
                    if max_entries - fence_num b < 1 \<or> max_entries - update_num b < 2
                    then Some (PVRSRV_OK, b, s)
                    else
                      (case kernel sd of
                         None \<Rightarrow> None
                       | Some k \<Rightarrow>
                           (case prims s (fence_sync k) of
                              None \<Rightarrow> None
                            | Some fp \<Rightarrow>
                                (let nv = next_value fp + 1;
                                     s1 = s\<lparr>prims := (prims s)(fence_sync k \<mapsto>
                                              fp\<lparr>next_value := nv\<rparr>)\<rparr>
                                 in
                                 case timelines s1 (ad_timeline alloc_sync_data) of
                                   None \<Rightarrow> None
                                 | Some tlo \<Rightarrow>
                                     (case timeline_sync tlo of
                                        None \<Rightarrow> None
                                      | Some ts \<Rightarrow>
                                          (case prims s1 ts of
                                             None \<Rightarrow> None
                                           | Some tp \<Rightarrow>
                                               Some (PVRSRV_OK,
                                                 put_update (vaddr tp) (timeline_update_value sd)
                                                   (put_fence (vaddr tp) (timeline_fence_value sd)
                                                     (put_update (vaddr fp) nv b)),
                                                 s1\<lparr>timelines := (timelines s1)
                                                   (ad_timeline alloc_sync_data \<mapsto>
                                                    tlo\<lparr>fencing_enabled := False\<rparr>)\<rparr>)))))))))"

text \<open>
  The shadow sync prims for the foreign points of a fence. The environment: kmalloc of
  the kernel pair and of the pvr\_sync\_fence, the allocations of the two prims, kmalloc
  of the waiter and the result of sync\_fence\_wait\_async.
\<close>

record foreign_env =
  fw_kmalloc_kernel :: bool
  fw_kmalloc_sync_fence :: bool
  fw_fence_prim :: prim_alloc
  fw_cleanup_prim :: prim_alloc
  fw_kmalloc_waiter :: bool
  fw_wait_async :: int

definition bump_next_value :: "addr \<Rightarrow> state \<Rightarrow> state option" where
  "bump_next_value sync s =
     (case prims s sync of
        None \<Rightarrow> None
      | Some p \<Rightarrow> Some (s\<lparr>prims := (prims s)(sync \<mapsto> p\<lparr>next_value := next_value p + 1\<rparr>)\<rparr>))"

definition pvr_sync_create_waiter_for_foreign_sync ::
  "foreign_env \<Rightarrow> int \<Rightarrow> state \<Rightarrow> (pvr_sync_kernel_pair option \<times> state) option"
where
  "pvr_sync_create_waiter_for_foreign_sync env fd s =
     (case sync_fence_fdget fd s of
        None \<Rightarrow> Some (None, s)
      | Some fence \<Rightarrow>
          if \<not> fw_kmalloc_kernel env then Some (None, s)
          else if \<not> fw_kmalloc_sync_fence env then Some (None, s)
          else
            (case sync_pool_get (fw_fence_prim env) (fence_name fence)
                    SYNC_PT_FOREIGN_FENCE_TYPE s of
               None \<Rightarrow> None
             | Some (error, fs, s1) \<Rightarrow>
                 if error \<noteq> PVRSRV_OK then Some (None, s1)
                 else
                   (case fs of
                      None \<Rightarrow> None
                    | Some f \<Rightarrow>
                        (case bump_next_value f s1 of
                           None \<Rightarrow> None
                         | Some s2 \<Rightarrow>
                             (case sync_pool_get (fw_cleanup_prim env) (fence_name fence)
                                     SYNC_PT_FOREIGN_CLEANUP_TYPE s2 of
                                None \<Rightarrow> None
                              | Some (error2, cs, s3) \<Rightarrow>
                                  if error2 \<noteq> PVRSRV_OK then
                                    map_option (Pair None) (sync_pool_put f s3)
                                  else
                                    (case cs of
                                       None \<Rightarrow> None
                                     | Some c \<Rightarrow>
                                         (case bump_next_value c s3 of
                                            None \<Rightarrow> None
                                          | Some s4 \<Rightarrow>
                                              if \<not> fw_kmalloc_waiter env \<or> fw_wait_async env \<noteq> 0
                                              then
                                                (case sync_pool_put c s4 of
                                                   None \<Rightarrow> None
                                                 | Some s5 \<Rightarrow>
                                                     map_option (Pair None) (sync_pool_put f s5))
                                              else
                                                Some (Some \<lparr>fence_sync = f,
                                                             cleanup_sync = Some c\<rparr>, s4))))))))"

text \<open>
  One iteration of the loop of pvr\_sync\_query\_sync\_check over the points of the fence.
  The result is: whether the iteration left the loop by \<open>goto err_put\<close>, the flag
  \<open>have_active_foreign_sync\<close>, \<open>error\<close>, the buffers and the state.
\<close>

definition check_pt ::
  "prim_alloc \<Rightarrow> u32 \<Rightarrow> pvr_sync_pt \<Rightarrow> bool \<Rightarrow> ufo_buffers \<Rightarrow> state \<Rightarrow>
   (bool \<times> bool \<times> PVRSRV_ERROR \<times> ufo_buffers \<times> state) option"
where
  "check_pt env max_entries sync_pt have_active_foreign_sync b s =
     (if \<not> parent_pvr sync_pt then
        Some (False, (if pt_status sync_pt = 0 then True else have_active_foreign_sync),
              PVRSRV_OK, b, s)
      else
        (case pt_sync_data sync_pt of
           None \<Rightarrow> None
         | Some sda \<Rightarrow>
        (case sync_datas s sda of
           None \<Rightarrow> None
         | Some sd \<Rightarrow>
        (case kernel sd of
           None \<Rightarrow> Some (False, have_active_foreign_sync, PVRSRV_OK, b, s)
         | Some k \<Rightarrow>
        (case is_sync_met (fence_sync k) s of
           None \<Rightarrow> None
         | Some met \<Rightarrow>
             if met \<noteq> 0 then Some (False, have_active_foreign_sync, PVRSRV_OK, b, s)
             else if max_entries - fence_num b < 1 \<or> max_entries - update_num b < 1
             then Some (True, have_active_foreign_sync, PVRSRV_OK, b, s)
             else
        (case (case cleanup_sync k of
                 Some c \<Rightarrow> Some (PVRSRV_OK, Some c, s)
               | None \<Rightarrow>
                   (case timelines s (parent sync_pt) of
                      None \<Rightarrow> None
                    | Some tlo \<Rightarrow>
                        (case sync_pool_get env (tl_name tlo) SYNC_PT_CLEANUP_TYPE s of
                           None \<Rightarrow> None
                         | Some (error, cs, s1) \<Rightarrow>
                             Some (error, cs,
                               s1\<lparr>sync_datas := (sync_datas s1)(sda \<mapsto>
                                    sd\<lparr>kernel := Some (k\<lparr>cleanup_sync := cs\<rparr>)\<rparr>)\<rparr>)))) of
           None \<Rightarrow> None
         | Some (error, cs, s2) \<Rightarrow>
             if error \<noteq> PVRSRV_OK
             then Some (True, have_active_foreign_sync, error, b, s2)
             else
        (case cs of
           None \<Rightarrow> None
         | Some c \<Rightarrow>
        (case (prims s2 (fence_sync k), prims s2 c) of
           (Some fp, Some cp) \<Rightarrow>
             (let nv = next_value cp + 1;
                  s3 = s2\<lparr>prims := (prims s2)(c \<mapsto> cp\<lparr>next_value := nv\<rparr>)\<rparr>
              in Some (False, have_active_foreign_sync, PVRSRV_OK,
                       put_update (vaddr cp) nv (put_fence (vaddr fp) (next_value fp) b), s3))
         | _ \<Rightarrow> None))))))))"

text \<open>
  The loop itself; the \<open>i\<close>-th point of the fence meets the allocation
  \<open>env i\<close> if it needs a cleanup prim.
\<close>

fun check_pts ::
  "(nat \<Rightarrow> prim_alloc) \<Rightarrow> nat \<Rightarrow> u32 \<Rightarrow> pvr_sync_pt list \<Rightarrow> bool \<Rightarrow> ufo_buffers \<Rightarrow> state \<Rightarrow>
   (bool \<times> bool \<times> PVRSRV_ERROR \<times> ufo_buffers \<times> state) option"
where
  "check_pts env i max_entries [] have b s = Some (False, have, PVRSRV_OK, b, s)"
| "check_pts env i max_entries (sync_pt # pts) have b s =
     (case check_pt (env i) max_entries sync_pt have b s of
        None \<Rightarrow> None
      | Some (stop, have1, error, b1, s1) \<Rightarrow>
          if stop then Some (True, have1, error, b1, s1)
          else check_pts env (Suc i) max_entries pts have1 b1 s1)"

record check_env =
  ce_cleanup_alloc :: "nat \<Rightarrow> prim_alloc"
  ce_foreign :: foreign_env

definition pvr_sync_query_sync_check ::
  "check_env \<Rightarrow> int \<Rightarrow> u32 \<Rightarrow> ufo_buffers \<Rightarrow> state \<Rightarrow>
   (PVRSRV_ERROR \<times> ufo_buffers \<times> state) option"
where
  "pvr_sync_query_sync_check env fd max_entries b s =
     (case sync_fence_fdget fd s of
        None \<Rightarrow> Some (PVRSRV_ERROR_HANDLE_NOT_FOUND, b, s)
      | Some fence \<Rightarrow>
          (case check_pts (ce_cleanup_alloc env) 0 max_entries (pt_list fence) False b s of
             None \<Rightarrow> None
           | Some (stop, have_active_foreign_sync, error, b1, s1) \<Rightarrow>
               if stop \<or> \<not> have_active_foreign_sync then Some (error, b1, s1)
               else if max_entries - fence_num b1 < 1 \<or> max_entries - update_num b1 < 1
               then Some (error, b1, s1)
               else
                 (case pvr_sync_create_waiter_for_foreign_sync (ce_foreign env) fd s1 of
                    None \<Rightarrow> None
                  | Some (None, s2) \<Rightarrow> Some (error, b1, s2)
                  | Some (Some k, s2) \<Rightarrow>
                      (case cleanup_sync k of
                         None \<Rightarrow> None
                       | Some c \<Rightarrow>
                           (case (prims s2 (fence_sync k), prims s2 c) of
                              (Some fp, Some cp) \<Rightarrow>
                                Some (error,
                                  put_update (vaddr cp) (next_value cp)
                                    (put_fence (vaddr fp) (next_value fp) b1), s2)
                            | _ \<Rightarrow> None)))))"

text \<open>pvr\_sync\_query\_fence and pvr\_sync\_query\_fences, which stops at the first error.\<close>

definition pvr_sync_query_fence ::
  "check_env \<Rightarrow> int \<Rightarrow> bool \<Rightarrow> u32 \<Rightarrow> ufo_buffers \<Rightarrow> state \<Rightarrow>
   (PVRSRV_ERROR \<times> ufo_buffers \<times> state) option"
where
  "pvr_sync_query_fence env fd update max_entries b s =
     (if update then pvr_sync_query_sync_update fd max_entries b s
      else pvr_sync_query_sync_check env fd max_entries b s)"

fun pvr_sync_query_fences ::
  "(nat \<Rightarrow> check_env) \<Rightarrow> nat \<Rightarrow> int list \<Rightarrow> bool \<Rightarrow> u32 \<Rightarrow> ufo_buffers \<Rightarrow> state \<Rightarrow>
   (PVRSRV_ERROR \<times> ufo_buffers \<times> state) option"
where
  "pvr_sync_query_fences env i [] update max_entries b s = Some (PVRSRV_OK, b, s)"
| "pvr_sync_query_fences env i (fd # fds) update max_entries b s =
     (case pvr_sync_query_fence (env i) fd update max_entries b s of
        None \<Rightarrow> None
      | Some (error, b1, s1) \<Rightarrow>
          if error \<noteq> PVRSRV_OK then Some (error, b1, s1)
          else pvr_sync_query_fences env (Suc i) fds update max_entries b1 s1)"

section \<open>The state after pvr\_sync\_init and example runs\<close>

text \<open>
  pvr\_sync\_init sets the id counter to 0; the lists and counters of the pool are
  zero-initialised statics.
\<close>

definition init_state :: state where
  "init_state = \<lparr>prims = Map.empty, sync_datas = Map.empty, timelines = Map.empty,
     files = Map.empty, sync_pool_free_list = [], sync_pool_active_list = [],
     sync_pool_size = 0, sync_pool_created = 0, sync_pool_reused = 0, sync_id = 0,
     sync_prim_free_list = []\<rparr>"

text \<open>Output arrays of \<open>n\<close> elements as pvr\_sync\_merge\_fences passes them: both counters 0.\<close>

definition empty_buffers :: "nat \<Rightarrow> ufo_buffers" where
  "empty_buffers n = \<lparr>fence_ufo_address = replicate n 0, fence_value = replicate n 0,
     fence_num = 0, update_ufo_address = replicate n 0, update_value = replicate n 0,
     update_num = 0, oob_store = False\<rparr>"

text \<open>
  A run used to instantiate the theorems below: a process opens the device (timeline 30,
  timeline prim at address 10), allocates a fence (descriptor 5, sync data at 20, fence
  prim at 11) and creates the fence from it (descriptor 6).
\<close>

definition ex_open_env :: open_env where
  "ex_open_env = \<lparr>op_name = ''app-1'', op_timeline_create = Some 30,
     op_prim_alloc = Kmalloc_ok 10 PVRSRV_OK 0x1000\<rparr>"

definition ex_alloc_env :: alloc_fence_env where
  "ex_alloc_env = \<lparr>af_fd = 5, af_access_read = True, af_access_write = True,
     af_kzalloc_alloc_data = True,
     af_sync_data = \<lparr>kzalloc_sync_data = Some 20, kzalloc_kernel = True,
                      fence_prim_alloc = Kmalloc_ok 11 PVRSRV_OK 0x2000\<rparr>,
     af_getfile = True, af_access_reply = True, af_copy_to_user = True\<rparr>"

definition ex_create_env :: create_fence_env where
  "ex_create_env = \<lparr>cf_fd = 6, cf_access_read = True,
     cf_copy_from_user = Some (5, ''fence''), cf_sync_pt_create = True,
     cf_sync_fence_create = True, cf_access_reply = True, cf_copy_to_user = True\<rparr>"

definition ex_tl_prim :: "u32 \<Rightarrow> pvr_sync_native_sync_prim" where
  "ex_tl_prim n = \<lparr>lin_value = 0, next_value = n, prim_id = 1, vaddr = 0x1000,
     prim_type = SYNC_TL_TYPE, prim_class = ''app-1''\<rparr>"

definition ex_fence_prim :: "u32 \<Rightarrow> pvr_sync_native_sync_prim" where
  "ex_fence_prim n = \<lparr>lin_value = 0, next_value = n, prim_id = 2, vaddr = 0x2000,
     prim_type = SYNC_PT_FENCE_TYPE, prim_class = ''app-1''\<rparr>"

definition ex_timeline :: pvr_sync_timeline where
  "ex_timeline = \<lparr>tl_name = ''app-1'', timeline_sync = Some 10, fencing_enabled = True\<rparr>"

definition ex_sync_data :: pvr_sync_data where
  "ex_sync_data = \<lparr>kernel = Some \<lparr>fence_sync = 11, cleanup_sync = None\<rparr>,
     timeline_fence_value = 0, timeline_update_value = 1, refcount = 1\<rparr>"

definition ex_opened :: state where
  "ex_opened = init_state
     \<lparr>prims := [10 \<mapsto> ex_tl_prim 0],
      timelines := [30 \<mapsto> ex_timeline],
      sync_pool_active_list := [10], sync_pool_created := 1, sync_id := 1\<rparr>"

definition ex_allocated :: state where
  "ex_allocated = ex_opened
     \<lparr>prims := [10 \<mapsto> ex_tl_prim 1, 11 \<mapsto> ex_fence_prim 0],
      sync_datas := [20 \<mapsto> ex_sync_data],
      files := [5 \<mapsto> Alloc_file \<lparr>ad_sync_data = Some 20, ad_timeline = 30\<rparr>],
      sync_pool_active_list := [10, 11], sync_pool_created := 2, sync_id := 2\<rparr>"

definition ex_pt :: pvr_sync_pt where
  "ex_pt = \<lparr>parent = 30, parent_pvr = True, pt_status = 0, pt_sync_data = Some 20\<rparr>"

definition ex_created :: state where
  "ex_created = ex_allocated
     \<lparr>files := [5 \<mapsto> Alloc_file \<lparr>ad_sync_data = None, ad_timeline = 30\<rparr>,
                 6 \<mapsto> Fence_file \<lparr>fence_name = ''fence'', pt_list = [ex_pt]\<rparr>]\<rparr>"

text \<open>
  Two points of timeline 30 whose sync data (at 21 and 22) carry the update values
  \<open>va\<close> and \<open>vb\<close>, for the comparison.
\<close>

definition cmp_state :: "u32 \<Rightarrow> u32 \<Rightarrow> state" where
  "cmp_state va vb = ex_opened
     \<lparr>sync_datas := [21 \<mapsto> ex_sync_data\<lparr>timeline_update_value := va\<rparr>,
                      22 \<mapsto> ex_sync_data\<lparr>timeline_update_value := vb\<rparr>]\<rparr>"

definition cmp_pt :: "addr \<Rightarrow> pvr_sync_pt" where
  "cmp_pt sda = \<lparr>parent = 30, parent_pvr = True, pt_status = 0, pt_sync_data = Some sda\<rparr>"

text \<open>
  The example run continued: the update-mode query on descriptor 5 before the fence is
  created, and the buffers it fills.
\<close>

definition ex_queried :: state where
  "ex_queried = ex_allocated
     \<lparr>prims := [10 \<mapsto> ex_tl_prim 1, 11 \<mapsto> ex_fence_prim 1],
      timelines := [30 \<mapsto> ex_timeline\<lparr>fencing_enabled := False\<rparr>]\<rparr>"

definition ex_buffers :: ufo_buffers where
  "ex_buffers = \<lparr>fence_ufo_address = [0x1000, 0, 0, 0], fence_value = [0, 0, 0, 0],
     fence_num = 1, update_ufo_address = [0x2000, 0x1000, 0, 0],
     update_value = [1, 1, 0, 0], update_num = 2, oob_store = False\<rparr>"

text \<open>
  In the words of the specification: the fence prim of a sync data is met when its
  current value equals its \<open>next_value\<close>.
\<close>

definition fence_prim_met :: "pvr_sync_data \<Rightarrow> state \<Rightarrow> bool" where
  "fence_prim_met sd s =
     (case kernel sd of
        None \<Rightarrow> False
      | Some k \<Rightarrow>
          (case prims s (fence_sync k) of
             None \<Rightarrow> False
           | Some p \<Rightarrow> lin_value p = next_value p))"

text \<open>
  The output arrays have \<open>max_entries\<close> elements each, neither counter is past
  \<open>max_entries\<close>, and no store has landed outside an array.
\<close>

definition buffers_within :: "u32 \<Rightarrow> ufo_buffers \<Rightarrow> bool" where
  "buffers_within max_entries b =
     (length (fence_ufo_address b) = unat max_entries
      \<and> length (fence_value b) = unat max_entries
      \<and> length (update_ufo_address b) = unat max_entries
      \<and> length (update_value b) = unat max_entries
      \<and> fence_num b \<le> max_entries
      \<and> update_num b \<le> max_entries
      \<and> \<not> oob_store b)"

text \<open>
  The example run continued the usual way: allocate, query for update, then create.
  The point of the new fence waits for its prim to reach 1.
\<close>

definition ex_live :: state where
  "ex_live = ex_queried
     \<lparr>files := [5 \<mapsto> Alloc_file \<lparr>ad_sync_data = None, ad_timeline = 30\<rparr>,
                 6 \<mapsto> Fence_file \<lparr>fence_name = ''fence'', pt_list = [ex_pt]\<rparr>]\<rparr>"

definition ex_foreign_env :: foreign_env where
  "ex_foreign_env = \<lparr>fw_kmalloc_kernel = True, fw_kmalloc_sync_fence = True,
     fw_fence_prim = Kmalloc_ok 14 PVRSRV_OK 0x5000,
     fw_cleanup_prim = Kmalloc_ok 15 PVRSRV_OK 0x6000,
     fw_kmalloc_waiter = True, fw_wait_async = 0\<rparr>"

definition ex_check_env :: check_env where
  "ex_check_env = \<lparr>ce_cleanup_alloc = (\<lambda>i. Kmalloc_ok (40 + i) PVRSRV_OK 0x3000),
     ce_foreign = ex_foreign_env\<rparr>"

section \<open>Reading the query's output\<close>

text \<open>
  The entries the counters declare valid, as (address, value) pairs in array order.
\<close>

definition waits :: "ufo_buffers \<Rightarrow> (u32 \<times> u32) list" where
  "waits b = zip (take (unat (fence_num b)) (fence_ufo_address b))
                 (take (unat (fence_num b)) (fence_value b))"

definition updates :: "ufo_buffers \<Rightarrow> (u32 \<times> u32) list" where
  "updates b = zip (take (unat (update_num b)) (update_ufo_address b))
                   (take (unat (update_num b)) (update_value b))"

text \<open>
  The kernel pair behind a point, and what the specification calls an unsatisfied point
  of this engine: a point of one of the driver's timelines that has a backing prim whose
  current value differs from its \<open>next_value\<close>.
\<close>

definition pt_kernel :: "state \<Rightarrow> pvr_sync_pt \<Rightarrow> pvr_sync_kernel_pair option" where
  "pt_kernel s pt =
     (case deref_sync_data (pt_sync_data pt) s of None \<Rightarrow> None | Some sd \<Rightarrow> kernel sd)"

definition pt_unsatisfied :: "state \<Rightarrow> pvr_sync_pt \<Rightarrow> bool" where
  "pt_unsatisfied s pt =
     (parent_pvr pt \<and>
      (case pt_kernel s pt of
         None \<Rightarrow> False
       | Some k \<Rightarrow>
           (case prims s (fence_sync k) of
              None \<Rightarrow> False
            | Some p \<Rightarrow> lin_value p \<noteq> next_value p)))"

text \<open>The wait entry of a point: its fence prim's address at that prim's \<open>next_value\<close>.\<close>

definition pt_wait_entry :: "state \<Rightarrow> pvr_sync_pt \<Rightarrow> u32 \<times> u32" where
  "pt_wait_entry s pt =
     (case pt_kernel s pt of
        None \<Rightarrow> (0, 0)
      | Some k \<Rightarrow>
          (case prims s (fence_sync k) of
             None \<Rightarrow> (0, 0)
           | Some p \<Rightarrow> (vaddr p, next_value p)))"

text \<open>The update entry of a point: its cleanup prim's address at that prim's \<open>next_value\<close>.\<close>

definition pt_update_entry :: "state \<Rightarrow> pvr_sync_pt \<Rightarrow> u32 \<times> u32" where
  "pt_update_entry s pt =
     (case pt_kernel s pt of
        None \<Rightarrow> (0, 0)
      | Some k \<Rightarrow>
          (case cleanup_sync k of
             None \<Rightarrow> (0, 0)
           | Some c \<Rightarrow>
               (case prims s c of
                  None \<Rightarrow> (0, 0)
                | Some p \<Rightarrow> (vaddr p, next_value p))))"

text \<open>
  The shape of the heap a check-mode query relies on, for the points \<open>pts\<close> of a
  fence and a set \<open>F\<close> holding their fence prims: every point of the driver has its
  sync data and its timeline; its fence prim is allocated; a cleanup prim it already has
  is allocated and is no fence prim; the prims on the pool's free list are allocated and
  are no fence prims; and every allocation of a new prim succeeds with an address that
  is no fence prim.
\<close>

definition check_heap :: "state \<Rightarrow> (nat \<Rightarrow> prim_alloc) \<Rightarrow> addr set \<Rightarrow> pvr_sync_pt list \<Rightarrow> bool" where
  "check_heap s env F pts =
     ((\<forall>pt \<in> set pts. parent_pvr pt \<longrightarrow>
         deref_sync_data (pt_sync_data pt) s \<noteq> None
         \<and> timelines s (parent pt) \<noteq> None
         \<and> (\<forall>k. pt_kernel s pt = Some k \<longrightarrow>
               fence_sync k \<in> F \<and> prims s (fence_sync k) \<noteq> None
               \<and> (\<forall>c. cleanup_sync k = Some c \<longrightarrow> c \<notin> F \<and> prims s c \<noteq> None)))
      \<and> (\<forall>c \<in> set (sync_pool_free_list s). c \<notin> F \<and> prims s c \<noteq> None)
      \<and> (\<forall>j. \<exists>a fw. env j = Kmalloc_ok a PVRSRV_OK fw \<and> a \<notin> F))"

text \<open>
  The value a check-mode query advances the cleanup prim of a point to: one past the
  prim's \<open>next_value\<close>, and 1 for the prim the query acquires when the point has
  none yet (the pool hands a prim out with \<open>next_value\<close> 0).
\<close>

definition pt_cleanup_target :: "state \<Rightarrow> pvr_sync_pt \<Rightarrow> u32" where
  "pt_cleanup_target s pt =
     (case pt_kernel s pt of
        None \<Rightarrow> 0
      | Some k \<Rightarrow>
          (case cleanup_sync k of
             None \<Rightarrow> 1
           | Some c \<Rightarrow> (case prims s c of None \<Rightarrow> 0 | Some p \<Rightarrow> next_value p + 1)))"

text \<open>
  A merged fence behind descriptor 9: a point of a second timeline (31) whose prim (13)
  has been completed, and the point of the example run, whose prim has not.
\<close>

definition ex_done_pt :: pvr_sync_pt where
  "ex_done_pt = \<lparr>parent = 31, parent_pvr = True, pt_status = 1, pt_sync_data = Some 23\<rparr>"

definition ex_merged :: state where
  "ex_merged = ex_live
     \<lparr>prims := [10 \<mapsto> ex_tl_prim 1, 11 \<mapsto> ex_fence_prim 1,
                 13 \<mapsto> \<lparr>lin_value = 1, next_value = 1, prim_id = 4, vaddr = 0x4000,
                         prim_type = SYNC_PT_FENCE_TYPE, prim_class = ''app-2''\<rparr>,
                 16 \<mapsto> \<lparr>lin_value = 1, next_value = 1, prim_id = 3, vaddr = 0x7000,
                         prim_type = SYNC_TL_TYPE, prim_class = ''app-2''\<rparr>],
      sync_datas := [20 \<mapsto> ex_sync_data,
                      23 \<mapsto> \<lparr>kernel = Some \<lparr>fence_sync = 13, cleanup_sync = None\<rparr>,
                             timeline_fence_value = 0, timeline_update_value = 1,
                             refcount = 1\<rparr>],
      timelines := [30 \<mapsto> ex_timeline\<lparr>fencing_enabled := False\<rparr>,
                     31 \<mapsto> \<lparr>tl_name = ''app-2'', timeline_sync = Some 16,
                            fencing_enabled = False\<rparr>],
      files := [9 \<mapsto> Fence_file \<lparr>fence_name = ''merged'', pt_list = [ex_done_pt, ex_pt]\<rparr>],
      sync_pool_active_list := [10, 11, 16, 13], sync_pool_created := 4, sync_id := 4\<rparr>"

section \<open>Sequences of pool operations\<close>

datatype pool_op = Pool_get prim_alloc string u8 | Pool_put addr

fun pool_run :: "pool_op list \<Rightarrow> state \<Rightarrow> state option" where
  "pool_run [] s = Some s"
| "pool_run (Pool_get env cn ty # ops) s =
     (case sync_pool_get env cn ty s of
        None \<Rightarrow> None
      | Some (e, r, s1) \<Rightarrow> pool_run ops s1)"
| "pool_run (Pool_put sync # ops) s =
     (case sync_pool_put sync s of
        None \<Rightarrow> None
      | Some s1 \<Rightarrow> pool_run ops s1)"

text \<open>
  kmalloc never returns the address of a live object: along the run, whenever
  sync\_pool\_get has to allocate (the free list is empty) and kmalloc succeeds, no
  prim lives at the address returned.
\<close>

fun pool_fresh :: "pool_op list \<Rightarrow> state \<Rightarrow> bool" where
  "pool_fresh [] s = True"
| "pool_fresh (Pool_get env cn ty # ops) s =
     ((case env of
         Kmalloc_ok a e fw \<Rightarrow> sync_pool_free_list s \<noteq> [] \<or> prims s a = None
       | Kmalloc_failed \<Rightarrow> True)
      \<and> (case sync_pool_get env cn ty s of
            None \<Rightarrow> True
          | Some (e, r, s1) \<Rightarrow> pool_fresh ops s1))"
| "pool_fresh (Pool_put sync # ops) s =
     (case sync_pool_put sync s of
        None \<Rightarrow> True
      | Some s1 \<Rightarrow> pool_fresh ops s1)"

fun is_get :: "pool_op \<Rightarrow> bool" where
  "is_get (Pool_get env cn ty) = True"
| "is_get (Pool_put sync) = False"

text \<open>The ids of the prims on the active list, in list order.\<close>

definition prim_id_of :: "state \<Rightarrow> addr \<Rightarrow> u32" where
  "prim_id_of s a = (case prims s a of None \<Rightarrow> 0 | Some p \<Rightarrow> prim_id p)"

definition active_ids :: "state \<Rightarrow> u32 list" where
  "active_ids s = map (prim_id_of s) (sync_pool_active_list s)"

text \<open>
  A long run: one prim (at 10) is acquired and kept; a second prim (at 11) is acquired
  and released \<open>2^32 - 1\<close> times and then acquired once more.
\<close>

definition wrap_cycle :: "pool_op list" where
  "wrap_cycle = [Pool_get (Kmalloc_ok 11 PVRSRV_OK 0x2000) ''b'' SYNC_PT_FENCE_TYPE,
                 Pool_put 11]"

definition wrap_ops :: "pool_op list" where
  "wrap_ops = Pool_get (Kmalloc_ok 10 PVRSRV_OK 0x1000) ''a'' SYNC_TL_TYPE
      # concat (replicate (2 ^ 32 - 1) wrap_cycle)
      @ [Pool_get (Kmalloc_ok 11 PVRSRV_OK 0x2000) ''b'' SYNC_PT_FENCE_TYPE]"

definition wrap_first :: state where
  "wrap_first = init_state
     \<lparr>prims := [10 \<mapsto> \<lparr>lin_value = 0, next_value = 0, prim_id = 1, vaddr = 0x1000,
                         prim_type = SYNC_TL_TYPE, prim_class = ''a''\<rparr>],
      sync_pool_active_list := [10], sync_pool_created := 1, sync_id := 1\<rparr>"

text \<open>The state after the first acquisition and \<open>n + 1\<close> acquire/release cycles.\<close>

definition wrap_cycled :: "nat \<Rightarrow> state" where
  "wrap_cycled n = init_state
     \<lparr>prims := [10 \<mapsto> \<lparr>lin_value = 0, next_value = 0, prim_id = 1, vaddr = 0x1000,
                         prim_type = SYNC_TL_TYPE, prim_class = ''a''\<rparr>,
                 11 \<mapsto> \<lparr>lin_value = 0xffffffff, next_value = 0,
                         prim_id = 2 + word_of_nat n, vaddr = 0x2000,
                         prim_type = SYNC_PT_FENCE_TYPE, prim_class = ''b''\<rparr>],
      sync_pool_free_list := [11], sync_pool_active_list := [10],
      sync_pool_size := 1, sync_pool_created := 2, sync_pool_reused := word_of_nat n,
      sync_id := 2 + word_of_nat n\<rparr>"

definition wrap_final :: state where
  "wrap_final = init_state
     \<lparr>prims := [10 \<mapsto> \<lparr>lin_value = 0, next_value = 0, prim_id = 1, vaddr = 0x1000,
                         prim_type = SYNC_TL_TYPE, prim_class = ''a''\<rparr>,
                 11 \<mapsto> \<lparr>lin_value = 0, next_value = 0, prim_id = 1, vaddr = 0x2000,
                         prim_type = SYNC_PT_FENCE_TYPE, prim_class = ''b''\<rparr>],
      sync_pool_active_list := [10, 11],
      sync_pool_size := 0, sync_pool_created := 2, sync_pool_reused := 0xffffffff,
      sync_id := 1\<rparr>"

text \<open>
  The shape of the pool between operations: no prim is linked twice, every linked prim
  is allocated, and the active prims carry pairwise different ids, none of them ahead of
  the id counter.
\<close>

definition pool_inv :: "state \<Rightarrow> bool" where
  "pool_inv s =
     (distinct (sync_pool_free_list s @ sync_pool_active_list s)
      \<and> list_all (\<lambda>p. prims s p \<noteq> None) (sync_pool_free_list s @ sync_pool_active_list s)
      \<and> list_all (\<lambda>p. unat (prim_id_of s p) \<le> unat (sync_id s)) (sync_pool_active_list s)
      \<and> distinct (active_ids s))"

section \<open>The life of a timeline\<close>

text \<open>
  What happens around a timeline \<open>T\<close> between its open and its close: the
  control-channel operations on it, update-mode queries, releases of alloc handles, and
  the hardware writing the current value of a prim.
\<close>

datatype timeline_event =
    Ev_alloc alloc_fence_env
  | Ev_enable_fencing bool
  | Ev_query_update int u32 ufo_buffers
  | Ev_create create_fence_env
  | Ev_release int
  | Ev_hw_write addr u32

text \<open>
  A release rolls the timeline back when the handle still has its sync data and the
  \<open>next_value\<close> of its fence prim is still 0.
\<close>

definition release_rolls_back :: "int \<Rightarrow> state \<Rightarrow> bool" where
  "release_rolls_back fd s =
     (case pvr_sync_alloc_fence_fdget fd s of
        None \<Rightarrow> False
      | Some ad \<Rightarrow>
          (case deref_sync_data (ad_sync_data ad) s of
             None \<Rightarrow> False
           | Some sd \<Rightarrow>
               (case kernel sd of
                  None \<Rightarrow> False
                | Some k \<Rightarrow>
                    (case prims s (fence_sync k) of
                       None \<Rightarrow> False
                     | Some fp \<Rightarrow> next_value fp = 0))))"

text \<open>
  Running the events. The result counts the allocations that succeeded and replied
  "not idle", and the releases that rolled the timeline back.
\<close>

fun timeline_run :: "addr \<Rightarrow> timeline_event list \<Rightarrow> state \<Rightarrow> (nat \<times> nat \<times> state) option" where
  "timeline_run T [] s = Some (0, 0, s)"
| "timeline_run T (Ev_alloc env # evs) s =
     (case pvr_sync_ioctl_alloc_fence env T s of
        None \<Rightarrow> None
      | Some (err, out, s1) \<Rightarrow>
          (case timeline_run T evs s1 of
             None \<Rightarrow> None
           | Some (n, r, s') \<Rightarrow>
               Some ((if err = 0 \<and> map_option fst out = Some False then Suc n else n), r, s')))"
| "timeline_run T (Ev_enable_fencing f # evs) s =
     (case pvr_sync_ioctl_enable_fencing True (Some f) T s of
        None \<Rightarrow> None
      | Some (err, s1) \<Rightarrow> timeline_run T evs s1)"
| "timeline_run T (Ev_query_update fd m b # evs) s =
     (case pvr_sync_query_sync_update fd m b s of
        None \<Rightarrow> None
      | Some (e, b1, s1) \<Rightarrow> timeline_run T evs s1)"
| "timeline_run T (Ev_create env # evs) s =
     (case pvr_sync_ioctl_create_fence env T s of
        None \<Rightarrow> None
      | Some (err, out, s1) \<Rightarrow> timeline_run T evs s1)"
| "timeline_run T (Ev_release fd # evs) s =
     (case pvr_sync_alloc_release fd s of
        None \<Rightarrow> None
      | Some (err, s1) \<Rightarrow>
          (case timeline_run T evs s1 of
             None \<Rightarrow> None
           | Some (n, r, s') \<Rightarrow>
               Some (n, (if release_rolls_back fd s then Suc r else r), s')))"
| "timeline_run T (Ev_hw_write a v # evs) s =
     (case set_sync_value a v s of
        None \<Rightarrow> None
      | Some s1 \<Rightarrow> timeline_run T evs s1)"

text \<open>
  The timeline \<open>T\<close> owns its prim \<open>ts\<close>: the prim is allocated, it is not on
  the pool's free list and it is no sync data's fence prim.
\<close>

definition timeline_owns :: "addr \<Rightarrow> addr \<Rightarrow> state \<Rightarrow> bool" where
  "timeline_owns T ts s =
     (map_option timeline_sync (timelines s T) = Some (Some ts)
      \<and> prims s ts \<noteq> None
      \<and> ts \<notin> set (sync_pool_free_list s)
      \<and> (\<forall>sda sd k. sync_datas s sda = Some sd \<and> kernel sd = Some k \<longrightarrow> fence_sync k \<noteq> ts))"

text \<open>kmalloc does not return the timeline prim's address for a new fence prim.\<close>

fun event_avoids :: "addr \<Rightarrow> timeline_event \<Rightarrow> bool" where
  "event_avoids ts (Ev_alloc env) =
     (case fence_prim_alloc (af_sync_data env) of
        Kmalloc_ok a e fw \<Rightarrow> a \<noteq> ts
      | Kmalloc_failed \<Rightarrow> True)"
| "event_avoids ts ev = True"

definition ex_released :: state where
  "ex_released = ex_allocated
     \<lparr>prims := [10 \<mapsto> ex_tl_prim 0, 11 \<mapsto> ex_fence_prim 0],
      sync_datas := Map.empty, files := Map.empty,
      sync_prim_free_list := [\<lparr>fence_sync = 11, cleanup_sync = None\<rparr>]\<rparr>"

definition ex_fenced :: state where
  "ex_fenced = ex_queried\<lparr>timelines := [30 \<mapsto> ex_timeline]\<rparr>"

section \<open>Properties\<close>

subsection \<open>The example run\<close>

lemmas ex_defs = init_state_def empty_buffers_def ex_open_env_def ex_alloc_env_def
  ex_create_env_def ex_tl_prim_def ex_fence_prim_def ex_timeline_def ex_sync_data_def
  ex_opened_def ex_allocated_def ex_pt_def ex_created_def

lemma ex_opened_run: "pvr_sync_open ex_open_env init_state = Some (0, Some 30, ex_opened)"
  by (simp add: pvr_sync_open_def sync_pool_get_def Let_def ex_defs)

lemma ex_allocated_run:
  "pvr_sync_ioctl_alloc_fence ex_alloc_env 30 ex_opened = Some (0, Some (False, 5), ex_allocated)"
  by (simp add: pvr_sync_ioctl_alloc_fence_def pvr_sync_create_sync_data_def sync_pool_get_def
      Let_def is_sync_met_def fun_upd_twist ex_defs)

lemma ex_created_run:
  "pvr_sync_ioctl_create_fence ex_create_env 30 ex_allocated = Some (0, Some 6, ex_created)"
  by (simp add: pvr_sync_ioctl_create_fence_def pvr_sync_alloc_fence_fdget_def
      pvr_sync_create_sync_def Let_def fun_upd_twist ex_defs)

subsection \<open>Arithmetic of the 32-bit counters\<close>

lemma sint_neg_iff: "sint (w::u32) < 0 \<longleftrightarrow> 2 ^ 31 \<le> uint w"
proof -
  have b: "0 \<le> uint w" "uint w < 2 ^ 32" using uint_lt2p [of w] by simp_all
  have "sint w < 0 \<longleftrightarrow> odd (uint w div 2 ^ 31)"
    by (simp add: sint_uint bit_iff_odd)
  also have "\<dots> \<longleftrightarrow> 2 ^ 31 \<le> uint w"
  proof (cases "uint w < 2 ^ 31")
    case True
    with b have "uint w div 2 ^ 31 = 0" by simp
    with True show ?thesis by simp
  next
    case False
    with b have "uint w div 2 ^ 31 = 1" by simp
    with False show ?thesis by simp
  qed
  finally show ?thesis .
qed

lemma uint_neg_u32: "(w::u32) \<noteq> 0 \<Longrightarrow> uint (- w) = 2 ^ 32 - uint w"
  using uint_lt2p [of w]
  by (simp add: uint_word_ariths uint_0_iff zmod_zminus1_eq_if)

lemma uint_diff_ahead:
  fixes x :: u32
  assumes "0 < d" "d < 2 ^ 31"
  shows "uint ((x + word_of_nat d) - x) = int d"
    and "uint (x - (x + word_of_nat d)) = 2 ^ 32 - int d"
proof -
  have e: "(x + word_of_nat d) - x = word_of_nat d" by simp
  have u: "uint (word_of_nat d :: u32) = int d"
    using assms by (simp add: unsigned_of_nat take_bit_nat_eq_self)
  show "uint ((x + word_of_nat d) - x) = int d" using e u by simp
  have "x - (x + word_of_nat d) = - word_of_nat d" by simp
  moreover have "(word_of_nat d :: u32) \<noteq> 0" using u assms by auto
  ultimately show "uint (x - (x + word_of_nat d)) = 2 ^ 32 - int d"
    using u by (simp add: uint_neg_u32)
qed

lemma sint_diff_antisym:
  fixes x y :: u32
  assumes "x - y \<noteq> 0x80000000" "x \<noteq> y"
  shows "sint (x - y) < 0 \<longleftrightarrow> \<not> sint (y - x) < 0"
proof -
  define w where "w = x - y"
  have yx: "y - x = - w" by (simp add: w_def)
  have w0: "w \<noteq> 0" using assms(2) by (simp add: w_def)
  have n0: "uint w \<noteq> 0" using w0 by (simp add: uint_0_iff)
  have "w \<noteq> 0x80000000" using assms(1) by (simp add: w_def)
  then have n1: "uint w \<noteq> 2 ^ 31" by (simp add: word_uint_eq_iff)
  show ?thesis unfolding yx w_def[symmetric] sint_neg_iff uint_neg_u32[OF w0]
    using n0 n1 uint_lt2p [of w] by auto
qed

lemma capacity_left:
  fixes m n :: u32
  assumes "unat n + k \<le> unat m" "0 < k"
  shows "\<not> m - n < word_of_nat k"
proof -
  have le: "n \<le> m" using assms by (simp add: word_le_nat_alt)
  have "unat (m - n) = unat m - unat n" using le by (simp add: unat_sub)
  moreover have "unat (word_of_nat k :: u32) \<le> k" by (simp add: unat_of_nat)
  ultimately show ?thesis using assms by (simp add: word_less_nat_alt)
qed

lemma unat_suc_bounded:
  fixes n m :: u32
  assumes "unat n + k \<le> unat m" "0 < k"
  shows "unat (n + 1) = Suc (unat n)"
proof -
  have "unat n + 1 < 2 ^ 32" using assms unsigned_less [of m, where 'a = nat] by simp
  then show ?thesis by (simp add: unat_word_ariths)
qed

subsection \<open>Ordering of sync points\<close>

lemma pvr_sync_compare_eval:
  assumes "pt_sync_data a = Some da" "pt_sync_data b = Some db"
      and "sync_datas s da = Some sa" "sync_datas s db = Some sb"
  shows "pvr_sync_compare a b s =
     Some (if timeline_update_value sa = timeline_update_value sb then 0
           else if sint (timeline_update_value sa - timeline_update_value sb) < 0 then - 1
           else 1)"
  using assms by (simp add: pvr_sync_compare_def deref_sync_data_def Let_def)

text \<open>
  C4, as the claim states it, fails: the comparison does not order every pair of values.
  Two points whose update values lie exactly \<open>2^31\<close> apart (here 0 and
  \<open>0x80000000\<close>) are each reported to come before the other.
\<close>

theorem pvr_sync_compare_half_range_counterexample:
  "pvr_sync_compare (cmp_pt 21) (cmp_pt 22) (cmp_state 0 0x80000000) = Some (- 1)
   \<and> pvr_sync_compare (cmp_pt 22) (cmp_pt 21) (cmp_state 0 0x80000000) = Some (- 1)"
  by (simp add: pvr_sync_compare_def deref_sync_data_def cmp_pt_def cmp_state_def ex_defs)

text \<open>
  C4, amended. For two points with sync data: the comparison returns 0 exactly when
  the two 32-bit update values are equal; a point whose value lies \<open>d\<close> steps
  behind the other's, \<open>0 < d < 2^31\<close>, counted modulo \<open>2^32\<close> (so also
  across a rollover of the counter), compares as \<open>-1\<close> against it and the other as
  \<open>1\<close> against the first; and whenever the two values are not exactly \<open>2^31\<close>
  apart, the two directions of the comparison agree (\<open>a\<close> before \<open>b\<close> iff
  \<open>b\<close> after \<open>a\<close>).
\<close>

theorem pvr_sync_compare_wraparound:
  assumes "pt_sync_data a = Some da" "pt_sync_data b = Some db"
      and "sync_datas s da = Some sa" "sync_datas s db = Some sb"
  shows "(pvr_sync_compare a b s = Some 0
            \<longleftrightarrow> timeline_update_value sa = timeline_update_value sb)
     \<and> (0 < d \<and> d < 2 ^ 31
          \<and> timeline_update_value sb = timeline_update_value sa + word_of_nat d
        \<longrightarrow> pvr_sync_compare a b s = Some (- 1) \<and> pvr_sync_compare b a s = Some 1)
     \<and> (timeline_update_value sa - timeline_update_value sb \<noteq> 0x80000000
        \<longrightarrow> (pvr_sync_compare a b s = Some (- 1) \<longleftrightarrow> pvr_sync_compare b a s = Some 1))"
proof (intro conjI impI)
  show "pvr_sync_compare a b s = Some 0
          \<longleftrightarrow> timeline_update_value sa = timeline_update_value sb"
    by (simp add: pvr_sync_compare_eval [OF assms])
next
  assume h: "0 < d \<and> d < 2 ^ 31
      \<and> timeline_update_value sb = timeline_update_value sa + word_of_nat d"
  then have d: "0 < d" "d < 2 ^ 31" by simp_all
  let ?x = "timeline_update_value sa"
  have ne: "?x \<noteq> ?x + word_of_nat d"
    using uint_diff_ahead(1) [OF d, of ?x] d by auto
  have n1: "sint (?x - (?x + word_of_nat d)) < 0"
    using uint_diff_ahead(2) [OF d, of ?x] d by (simp add: sint_neg_iff)
  have n2: "\<not> sint ((?x + word_of_nat d) - ?x) < 0"
    using uint_diff_ahead(1) [OF d, of ?x] d by (simp add: sint_neg_iff)
  show "pvr_sync_compare a b s = Some (- 1)"
    using h ne n1 by (simp add: pvr_sync_compare_eval [OF assms])
  show "pvr_sync_compare b a s = Some 1"
    using h ne n2
    by (simp add: pvr_sync_compare_eval [OF assms(2) assms(1) assms(4) assms(3)])
next
  assume h: "timeline_update_value sa - timeline_update_value sb \<noteq> 0x80000000"
  show "pvr_sync_compare a b s = Some (- 1) \<longleftrightarrow> pvr_sync_compare b a s = Some 1"
  proof (cases "timeline_update_value sa = timeline_update_value sb")
    case True
    then show ?thesis
      by (simp add: pvr_sync_compare_eval [OF assms]
          pvr_sync_compare_eval [OF assms(2) assms(1) assms(4) assms(3)])
  next
    case False
    then have ne: "timeline_update_value sb \<noteq> timeline_update_value sa" by simp
    show ?thesis
      using sint_diff_antisym [OF h False] False ne
      by (simp add: pvr_sync_compare_eval [OF assms]
          pvr_sync_compare_eval [OF assms(2) assms(1) assms(4) assms(3)])
  qed
qed

theorem pvr_sync_compare_wraparound_witness:
  "pvr_sync_compare (cmp_pt 21) (cmp_pt 22) (cmp_state 0xFFFFFFF0 0x00000010) = Some (- 1)
   \<and> pvr_sync_compare (cmp_pt 22) (cmp_pt 21) (cmp_state 0xFFFFFFF0 0x00000010) = Some 1
   \<and> (pvr_sync_compare (cmp_pt 21) (cmp_pt 22) (cmp_state 0xFFFFFFF0 0x00000010) = Some 0
        \<longleftrightarrow> (0xFFFFFFF0 :: u32) = 0x00000010)"
  using pvr_sync_compare_wraparound
    [where a = "cmp_pt 21" and b = "cmp_pt 22" and da = 21 and db = 22
       and s = "cmp_state 0xFFFFFFF0 0x00000010"
       and sa = "ex_sync_data\<lparr>timeline_update_value := 0xFFFFFFF0\<rparr>"
       and sb = "ex_sync_data\<lparr>timeline_update_value := 0x00000010\<rparr>"
       and d = 32]
  by (simp add: cmp_pt_def cmp_state_def)

subsection \<open>Frame of the pool operations\<close>

lemma sync_pool_get_result:
  assumes "sync_pool_get env cn ty s = Some (e, r, s')"
  shows "timelines s' = timelines s" "sync_datas s' = sync_datas s" "files s' = files s"
    "sync_prim_free_list s' = sync_prim_free_list s"
    "e \<noteq> PVRSRV_OK \<Longrightarrow> r = None \<and> s' = s"
    "e = PVRSRV_OK \<Longrightarrow> \<exists>p q. r = Some p \<and> prims s' p = Some q
        \<and> (\<forall>a. a \<noteq> p \<longrightarrow> prims s' a = prims s a)
        \<and> lin_value q = 0 \<and> next_value q = 0 \<and> prim_type q = ty
        \<and> prim_class q = take 32 cn \<and> prim_id q = sync_id s + 1
        \<and> sync_id s' = sync_id s + 1"
  using assms
  by (auto simp: sync_pool_get_def Let_def
      split: list.splits prim_alloc.splits option.splits if_splits)

subsection \<open>Allocating a fence\<close>

text \<open>
  C7, as the claim states it, fails in its last part: allocate-fence does not touch
  \<open>fencing_enabled\<close>. On a timeline that has just been opened the flag is true
  before the allocation and still true after it. (The flag is cleared by the update-mode
  query.)
\<close>

theorem alloc_fence_keeps_fencing_enabled_counterexample:
  "pvr_sync_ioctl_alloc_fence ex_alloc_env 30 ex_opened = Some (0, Some (False, 5), ex_allocated)
   \<and> map_option fencing_enabled (timelines ex_opened 30) = Some True
   \<and> map_option fencing_enabled (timelines ex_allocated 30) = Some True"
proof -
  have "map_option fencing_enabled (timelines ex_opened 30) = Some True"
    and "map_option fencing_enabled (timelines ex_allocated 30) = Some True"
    by (simp_all add: ex_defs)
  then show ?thesis using ex_allocated_run by simp
qed

text \<open>
  C7, amended. When every allocation step succeeds and the fence prim the pool hands
  out is not the timeline's own prim, allocate-fence on timeline \<open>T\<close> returns 0 and
  replies the idle flag, computed as (timeline prim met and \<open>fencing_enabled\<close>
  false); the new handle's sync data records \<open>timeline_fence_value\<close> = the prim's
  \<open>next_value\<close> before the call and \<open>timeline_update_value\<close> = the resulting
  \<open>next_value\<close>, which is the baseline when idle and the baseline plus one
  otherwise; and the timeline object, \<open>fencing_enabled\<close> included, is unchanged.
\<close>

theorem alloc_fence_reserves:
  assumes "timelines s timeline = Some tlo" "timeline_sync tlo = Some ts"
      and "prims s ts = Some tp"
      and "0 \<le> af_fd env" "af_access_read env" "af_access_write env"
      and "af_kzalloc_alloc_data env" "kzalloc_sync_data (af_sync_data env) = Some sda"
      and "kzalloc_kernel (af_sync_data env)" "af_getfile env"
      and "af_access_reply env" "af_copy_to_user env"
      and "map_option (\<lambda>(e, r, _). (e, r))
             (sync_pool_get (fence_prim_alloc (af_sync_data env)) (tl_name tlo)
                SYNC_PT_FENCE_TYPE s) = Some (PVRSRV_OK, Some fs)"
      and "fs \<noteq> ts"
  shows "\<exists>s' sd.
       pvr_sync_ioctl_alloc_fence env timeline s =
         Some (0, Some (lin_value tp = next_value tp \<and> \<not> fencing_enabled tlo, af_fd env), s')
     \<and> sync_datas s' sda = Some sd
     \<and> timeline_fence_value sd = next_value tp
     \<and> timeline_update_value sd =
          (if lin_value tp = next_value tp \<and> \<not> fencing_enabled tlo then next_value tp
           else next_value tp + 1)
     \<and> map_option next_value (prims s' ts) = Some (timeline_update_value sd)
     \<and> timelines s' timeline = Some tlo
     \<and> files s' (af_fd env) =
          Some (Alloc_file \<lparr>ad_sync_data = Some sda, ad_timeline = timeline\<rparr>)"
proof -
  from assms(13) obtain s0 where
    g: "sync_pool_get (fence_prim_alloc (af_sync_data env)) (tl_name tlo)
          SYNC_PT_FENCE_TYPE s = Some (PVRSRV_OK, Some fs, s0)"
    by (auto split: prod.splits)
  have fr: "timelines s0 = timelines s" "sync_datas s0 = sync_datas s"
    using g by (simp_all add: sync_pool_get_result)
  from sync_pool_get_result(6) [OF g] obtain q where
    q: "prims s0 fs = Some q" "\<forall>a. a \<noteq> fs \<longrightarrow> prims s0 a = prims s a" by auto
  have ts0: "prims s0 ts = Some tp" using q(2) assms(3,14) by simp
  show ?thesis
    using assms(1,2,4-12,14) g fr q(1) ts0
    by (simp add: pvr_sync_ioctl_alloc_fence_def pvr_sync_create_sync_data_def Let_def
        is_sync_met_def)
qed

theorem alloc_fence_reserves_witness:
  "\<exists>s' sd.
       pvr_sync_ioctl_alloc_fence ex_alloc_env 30 ex_opened = Some (0, Some (False, 5), s')
     \<and> sync_datas s' 20 = Some sd
     \<and> timeline_fence_value sd = 0
     \<and> timeline_update_value sd = 1
     \<and> map_option next_value (prims s' 10) = Some (timeline_update_value sd)
     \<and> timelines s' 30 = Some ex_timeline
     \<and> files s' 5 = Some (Alloc_file \<lparr>ad_sync_data = Some 20, ad_timeline = 30\<rparr>)"
proof -
  have h: "timelines ex_opened 30 = Some ex_timeline" "timeline_sync ex_timeline = Some 10"
    "prims ex_opened 10 = Some (ex_tl_prim 0)"
    "0 \<le> af_fd ex_alloc_env" "af_access_read ex_alloc_env" "af_access_write ex_alloc_env"
    "af_kzalloc_alloc_data ex_alloc_env"
    "kzalloc_sync_data (af_sync_data ex_alloc_env) = Some 20"
    "kzalloc_kernel (af_sync_data ex_alloc_env)" "af_getfile ex_alloc_env"
    "af_access_reply ex_alloc_env" "af_copy_to_user ex_alloc_env"
    "map_option (\<lambda>(e, r, _). (e, r))
       (sync_pool_get (fence_prim_alloc (af_sync_data ex_alloc_env)) (tl_name ex_timeline)
          SYNC_PT_FENCE_TYPE ex_opened) = Some (PVRSRV_OK, Some 11)"
    "(11::nat) \<noteq> 10"
    by (simp_all add: sync_pool_get_def Let_def ex_defs)
  show ?thesis
    using alloc_fence_reserves [OF h] by (simp add: ex_tl_prim_def ex_timeline_def ex_alloc_env_def)
qed

subsection \<open>The update-mode query\<close>

lemma replicate_4: "replicate 4 x = [x, x, x, x]"
  by (simp add: eval_nat_numeral)

lemma query_update_result:
  assumes "files s fd = Some (Alloc_file ad)" "ad_sync_data ad = Some sda"
      and "sync_datas s sda = Some sd" "kernel sd = Some k"
      and "prims s (fence_sync k) = Some fp"
      and "timelines s (ad_timeline ad) = Some tlo" "timeline_sync tlo = Some ts"
      and "prims s ts = Some tp"
      and "unat (fence_num b) + 1 \<le> unat max_entries"
      and "unat (update_num b) + 2 \<le> unat max_entries"
  shows "pvr_sync_query_sync_update fd max_entries b s =
     Some (PVRSRV_OK,
       put_update (vaddr tp) (timeline_update_value sd)
         (put_fence (vaddr tp) (timeline_fence_value sd)
           (put_update (vaddr fp) (next_value fp + 1) b)),
       s\<lparr>prims := (prims s)(fence_sync k \<mapsto> fp\<lparr>next_value := next_value fp + 1\<rparr>),
         timelines := (timelines s)(ad_timeline ad \<mapsto> tlo\<lparr>fencing_enabled := False\<rparr>)\<rparr>)"
proof -
  have c1: "\<not> max_entries - fence_num b < 1" using capacity_left [OF assms(9)] by simp
  have c2: "\<not> max_entries - update_num b < 2" using capacity_left [OF assms(10)] by simp
  show ?thesis
    using assms(1-8) c1 c2
    by (auto simp: pvr_sync_query_sync_update_def pvr_sync_alloc_fence_fdget_def Let_def)
qed

text \<open>
  C1. For an alloc handle that still carries its sync data (with its kernel pair and
  prims in place, as allocate-fence leaves them), on a timeline with its timeline prim,
  and output arrays of \<open>max_entries\<close> elements with room for one more wait entry and
  two more update entries: the update-mode query returns PVRSRV\_OK; it writes the
  update (fence prim address, that prim's \<open>next_value\<close> + 1) at the old update
  count, the wait (timeline prim address, \<open>timeline_fence_value\<close>) at the old fence
  count and the update (timeline prim address, \<open>timeline_update_value\<close>) right
  after the first update, and nothing else; the fence count grows by 1, the update count
  by 2; the fence prim's \<open>next_value\<close> is incremented and the timeline's
  \<open>fencing_enabled\<close> is false afterwards.
\<close>

theorem query_update_triple:
  assumes "files s fd = Some (Alloc_file ad)" "ad_sync_data ad = Some sda"
      and "sync_datas s sda = Some sd" "kernel sd = Some k"
      and "prims s (fence_sync k) = Some fp"
      and "timelines s (ad_timeline ad) = Some tlo" "timeline_sync tlo = Some ts"
      and "prims s ts = Some tp"
      and "unat (fence_num b) + 1 \<le> unat max_entries"
      and "unat (update_num b) + 2 \<le> unat max_entries"
      and "length (fence_ufo_address b) = unat max_entries"
      and "length (fence_value b) = unat max_entries"
      and "length (update_ufo_address b) = unat max_entries"
      and "length (update_value b) = unat max_entries"
  shows "\<exists>b' s'. pvr_sync_query_sync_update fd max_entries b s = Some (PVRSRV_OK, b', s')
     \<and> fence_num b' = fence_num b + 1
     \<and> update_num b' = update_num b + 2
     \<and> update_ufo_address b' =
         (update_ufo_address b)[unat (update_num b) := vaddr fp,
                                unat (update_num b) + 1 := vaddr tp]
     \<and> update_value b' =
         (update_value b)[unat (update_num b) := next_value fp + 1,
                          unat (update_num b) + 1 := timeline_update_value sd]
     \<and> fence_ufo_address b' = (fence_ufo_address b)[unat (fence_num b) := vaddr tp]
     \<and> fence_value b' = (fence_value b)[unat (fence_num b) := timeline_fence_value sd]
     \<and> oob_store b' = oob_store b
     \<and> map_option next_value (prims s' (fence_sync k)) = Some (next_value fp + 1)
     \<and> map_option fencing_enabled (timelines s' (ad_timeline ad)) = Some False"
proof -
  have u: "unat (update_num b + 1) = Suc (unat (update_num b))"
    using unat_suc_bounded [OF assms(10)] by simp
  show ?thesis
    unfolding query_update_result [OF assms(1-10)]
    using assms(9-14) u
    by (simp add: put_update_def put_fence_def array_store_def in_bounds_def)
qed

theorem query_update_triple_witness:
  "\<exists>b' s'. pvr_sync_query_sync_update 5 4 (empty_buffers 4) ex_allocated
               = Some (PVRSRV_OK, b', s')
     \<and> fence_num b' = 1
     \<and> update_num b' = 2
     \<and> update_ufo_address b' = [0x2000, 0x1000, 0, 0]
     \<and> update_value b' = [1, 1, 0, 0]
     \<and> fence_ufo_address b' = [0x1000, 0, 0, 0]
     \<and> fence_value b' = [0, 0, 0, 0]
     \<and> oob_store b' = False
     \<and> map_option next_value (prims s' 11) = Some 1
     \<and> map_option fencing_enabled (timelines s' 30) = Some False"
proof -
  have h: "files ex_allocated 5 = Some (Alloc_file \<lparr>ad_sync_data = Some 20, ad_timeline = 30\<rparr>)"
    "ad_sync_data \<lparr>ad_sync_data = Some 20, ad_timeline = 30\<rparr> = Some 20"
    "sync_datas ex_allocated 20 = Some ex_sync_data"
    "kernel ex_sync_data = Some \<lparr>fence_sync = 11, cleanup_sync = None\<rparr>"
    "prims ex_allocated (fence_sync \<lparr>fence_sync = 11, cleanup_sync = None\<rparr>)
       = Some (ex_fence_prim 0)"
    "timelines ex_allocated (ad_timeline \<lparr>ad_sync_data = Some 20, ad_timeline = 30\<rparr>)
       = Some ex_timeline"
    "timeline_sync ex_timeline = Some 10"
    "prims ex_allocated 10 = Some (ex_tl_prim 1)"
    "unat (fence_num (empty_buffers 4)) + 1 \<le> unat (4::u32)"
    "unat (update_num (empty_buffers 4)) + 2 \<le> unat (4::u32)"
    "length (fence_ufo_address (empty_buffers 4)) = unat (4::u32)"
    "length (fence_value (empty_buffers 4)) = unat (4::u32)"
    "length (update_ufo_address (empty_buffers 4)) = unat (4::u32)"
    "length (update_value (empty_buffers 4)) = unat (4::u32)"
    by (simp_all add: ex_defs)
  show ?thesis
    using query_update_triple [OF h]
    by (simp add: ex_tl_prim_def ex_fence_prim_def ex_sync_data_def empty_buffers_def
        replicate_4)
qed

text \<open>
  C10. When the alloc handle behind \<open>fd\<close> has a null \<open>sync_data\<close> pointer,
  the update-mode query returns PVRSRV\_ERROR\_RESOURCE\_UNAVAILABLE and hands back the
  buffers, the counters and the whole driver state as they were. A successful
  create-fence leaves the handle it converts in that condition
  (\<open>create_fence_clears_handle\<close>).
\<close>

lemma create_fence_clears_handle:
  assumes "pvr_sync_ioctl_create_fence env timeline s = Some (0, out, s')"
      and "cf_copy_from_user env = Some (fd, nm)" "cf_fd env \<noteq> fd"
  shows "\<exists>ad. files s' fd = Some (Alloc_file ad) \<and> ad_sync_data ad = None"
  using assms
  by (auto simp: pvr_sync_ioctl_create_fence_def pvr_sync_alloc_fence_fdget_def
      pvr_sync_create_sync_def Let_def EFAULT_def ENOMEM_def
      split: if_splits option.splits fd_file.splits)

theorem query_update_converted_handle:
  assumes "files s fd = Some (Alloc_file ad)" "ad_sync_data ad = None"
  shows "pvr_sync_query_sync_update fd max_entries b s =
           Some (PVRSRV_ERROR_RESOURCE_UNAVAILABLE, b, s)"
  using assms
  by (simp add: pvr_sync_query_sync_update_def pvr_sync_alloc_fence_fdget_def)

theorem query_update_converted_handle_witness:
  "pvr_sync_ioctl_create_fence ex_create_env 30 ex_allocated = Some (0, Some 6, ex_created)
   \<and> pvr_sync_query_sync_update 5 4 (empty_buffers 4) ex_created =
           Some (PVRSRV_ERROR_RESOURCE_UNAVAILABLE, empty_buffers 4, ex_created)"
proof -
  have h: "files ex_created 5 = Some (Alloc_file \<lparr>ad_sync_data = None, ad_timeline = 30\<rparr>)"
    "ad_sync_data \<lparr>ad_sync_data = None, ad_timeline = 30\<rparr> = None"
    by (simp_all add: ex_created_def)
  show ?thesis
    using query_update_converted_handle [OF h] ex_created_run by simp
qed

lemma ex_queried_run:
  "pvr_sync_query_sync_update 5 4 (empty_buffers 4) ex_allocated
     = Some (PVRSRV_OK, ex_buffers, ex_queried)"
  by (simp add: pvr_sync_query_sync_update_def pvr_sync_alloc_fence_fdget_def Let_def
      put_update_def put_fence_def array_store_def in_bounds_def replicate_4 fun_upd_twist
      ex_queried_def ex_buffers_def ex_defs)

subsection \<open>Signaled points\<close>

text \<open>
  C3, as the claim states it, fails in its first particular case: a point created from
  a freshly allocated handle, whose prim nobody has completed, is reported signaled. The
  pool hands the fence prim out with value 0 and \<open>next_value\<close> 0, so the prim is met
  from the start; it becomes unmet only when an update-mode query advances its
  \<open>next_value\<close>.
\<close>

theorem has_signaled_fresh_point_counterexample:
  "pvr_sync_ioctl_alloc_fence ex_alloc_env 30 ex_opened = Some (0, Some (False, 5), ex_allocated)
   \<and> pvr_sync_ioctl_create_fence ex_create_env 30 ex_allocated = Some (0, Some 6, ex_created)
   \<and> sync_fence_fdget 6 ex_created = Some \<lparr>fence_name = ''fence'', pt_list = [ex_pt]\<rparr>
   \<and> pvr_sync_has_signaled ex_pt ex_created = Some 1"
proof -
  have "sync_fence_fdget 6 ex_created = Some \<lparr>fence_name = ''fence'', pt_list = [ex_pt]\<rparr>"
    by (simp add: sync_fence_fdget_def ex_created_def)
  moreover have "pvr_sync_has_signaled ex_pt ex_created = Some 1"
    by (simp add: pvr_sync_has_signaled_def deref_sync_data_def is_sync_met_def ex_defs)
  ultimately show ?thesis using ex_allocated_run ex_created_run by simp
qed

text \<open>
  C3, amended. For a point with its sync data in place (and the fence prim in place when
  there is a kernel pair), has-signaled returns 1 if the point has no kernel pair or its
  fence prim's current value equals that prim's \<open>next_value\<close>, and 0 otherwise. In
  particular: once an update-mode query on the point's handle has queued an update, a
  point whose prim was met before is not signaled; and after the fence prim is completed
  to its target the point is signaled. (A point created from a fresh allocation with no
  update queued has value 0 and target 0 and is signaled already.)
\<close>

theorem has_signaled_iff_idle_or_met:
  assumes "pt_sync_data pt = Some sda" "sync_datas s sda = Some sd"
      and "kernel sd = None \<or> (\<exists>k p. kernel sd = Some k \<and> prims s (fence_sync k) = Some p)"
  shows "pvr_sync_has_signaled pt s
           = Some (if kernel sd = None \<or> fence_prim_met sd s then 1 else 0)
     \<and> (files s fd = Some (Alloc_file ad) \<and> ad_sync_data ad = Some sda
          \<and> fence_prim_met sd s
          \<and> pvr_sync_query_sync_update fd max_entries b s = Some (PVRSRV_OK, b', s')
          \<and> update_num b' \<noteq> update_num b
        \<longrightarrow> pvr_sync_has_signaled pt s' = Some 0)
     \<and> (kernel sd = Some k \<and> complete_sync (fence_sync k) s = Some s''
        \<longrightarrow> pvr_sync_has_signaled pt s'' = Some 1)"
proof (intro conjI impI)
  show "pvr_sync_has_signaled pt s
          = Some (if kernel sd = None \<or> fence_prim_met sd s then 1 else 0)"
    using assms
    by (auto simp: pvr_sync_has_signaled_def deref_sync_data_def is_sync_met_def
        fence_prim_met_def)
next
  assume h: "files s fd = Some (Alloc_file ad) \<and> ad_sync_data ad = Some sda
      \<and> fence_prim_met sd s
      \<and> pvr_sync_query_sync_update fd max_entries b s = Some (PVRSRV_OK, b', s')
      \<and> update_num b' \<noteq> update_num b"
  then show "pvr_sync_has_signaled pt s' = Some 0"
    using assms(1,2)
    by (auto simp: pvr_sync_query_sync_update_def pvr_sync_alloc_fence_fdget_def Let_def
        pvr_sync_has_signaled_def deref_sync_data_def is_sync_met_def fence_prim_met_def
        split: option.splits if_splits)
next
  assume "kernel sd = Some k \<and> complete_sync (fence_sync k) s = Some s''"
  then show "pvr_sync_has_signaled pt s'' = Some 1"
    using assms(1,2)
    by (auto simp: complete_sync_def pvr_sync_has_signaled_def deref_sync_data_def
        is_sync_met_def split: option.splits)
qed

theorem has_signaled_iff_idle_or_met_witness:
  "pvr_sync_has_signaled ex_pt ex_allocated = Some 1
   \<and> pvr_sync_query_sync_update 5 4 (empty_buffers 4) ex_allocated
       = Some (PVRSRV_OK, ex_buffers, ex_queried)
   \<and> pvr_sync_has_signaled ex_pt ex_queried = Some 0
   \<and> complete_sync 11 ex_queried
       = Some (ex_queried\<lparr>prims := [10 \<mapsto> ex_tl_prim 1, 11 \<mapsto> (ex_fence_prim 1)\<lparr>lin_value := 1\<rparr>]\<rparr>)
   \<and> pvr_sync_has_signaled ex_pt
        (ex_queried\<lparr>prims := [10 \<mapsto> ex_tl_prim 1, 11 \<mapsto> (ex_fence_prim 1)\<lparr>lin_value := 1\<rparr>]\<rparr>)
       = Some 1"
proof -
  have a: "pt_sync_data ex_pt = Some 20" "sync_datas ex_allocated 20 = Some ex_sync_data"
    "kernel ex_sync_data = None
       \<or> (\<exists>k p. kernel ex_sync_data = Some k \<and> prims ex_allocated (fence_sync k) = Some p)"
    by (simp_all add: ex_defs)
  have q: "pt_sync_data ex_pt = Some 20" "sync_datas ex_queried 20 = Some ex_sync_data"
    "kernel ex_sync_data = None
       \<or> (\<exists>k p. kernel ex_sync_data = Some k \<and> prims ex_queried (fence_sync k) = Some p)"
    by (simp_all add: ex_queried_def ex_defs)
  have m: "fence_prim_met ex_sync_data ex_allocated" "\<not> fence_prim_met ex_sync_data ex_queried"
    by (simp_all add: fence_prim_met_def ex_queried_def ex_defs)
  have f: "files ex_allocated 5 = Some (Alloc_file \<lparr>ad_sync_data = Some 20, ad_timeline = 30\<rparr>)"
    "kernel ex_sync_data = Some \<lparr>fence_sync = 11, cleanup_sync = None\<rparr>"
    by (simp_all add: ex_defs)
  have c: "complete_sync 11 ex_queried
       = Some (ex_queried\<lparr>prims := [10 \<mapsto> ex_tl_prim 1, 11 \<mapsto> (ex_fence_prim 1)\<lparr>lin_value := 1\<rparr>]\<rparr>)"
    by (simp add: complete_sync_def ex_queried_def ex_defs)
  show ?thesis
    using has_signaled_iff_idle_or_met [OF a, where fd = 5 and max_entries = 4
        and ad = "\<lparr>ad_sync_data = Some 20, ad_timeline = 30\<rparr>"
        and b = "empty_buffers 4" and b' = ex_buffers and s' = ex_queried]
      has_signaled_iff_idle_or_met [OF q, where k = "\<lparr>fence_sync = 11, cleanup_sync = None\<rparr>"
        and s'' = "ex_queried\<lparr>prims := [10 \<mapsto> ex_tl_prim 1, 11 \<mapsto> (ex_fence_prim 1)\<lparr>lin_value := 1\<rparr>]\<rparr>"]
      m f c ex_queried_run
    by (simp add: ex_buffers_def empty_buffers_def)
qed

subsection \<open>Releasing an unused alloc handle\<close>

lemma alloc_fence_success_state:
  assumes "pvr_sync_ioctl_alloc_fence env timeline s = Some (0, out, s')"
      and "timelines s timeline = Some tlo" "timeline_sync tlo = Some ts"
      and "prims s ts = Some tp"
      and "kzalloc_sync_data (af_sync_data env) = Some sda"
      and "map_option (\<lambda>(e, r, _). (e, r))
             (sync_pool_get (fence_prim_alloc (af_sync_data env)) (tl_name tlo)
                SYNC_PT_FENCE_TYPE s) = Some (e0, Some fs)"
      and "fs \<noteq> ts"
  shows "out = Some (lin_value tp = next_value tp \<and> \<not> fencing_enabled tlo, af_fd env)"
    and "sync_datas s' sda =
          Some \<lparr>kernel = Some \<lparr>fence_sync = fs, cleanup_sync = None\<rparr>,
                timeline_fence_value = next_value tp,
                timeline_update_value =
                  (if lin_value tp = next_value tp \<and> \<not> fencing_enabled tlo then next_value tp
                   else next_value tp + 1),
                refcount = 1\<rparr>"
    and "prims s' ts =
          Some (tp\<lparr>next_value :=
                  (if lin_value tp = next_value tp \<and> \<not> fencing_enabled tlo then next_value tp
                   else next_value tp + 1)\<rparr>)"
    and "\<exists>q. prims s' fs = Some q \<and> next_value q = 0 \<and> lin_value q = 0"
    and "timelines s' = timelines s"
    and "files s' = (files s)(af_fd env \<mapsto>
           Alloc_file \<lparr>ad_sync_data = Some sda, ad_timeline = timeline\<rparr>)"
    and "sync_pool_free_list s' = tl (sync_pool_free_list s)"
proof -
  from assms(6) obtain s0 where
    g: "sync_pool_get (fence_prim_alloc (af_sync_data env)) (tl_name tlo)
          SYNC_PT_FENCE_TYPE s = Some (e0, Some fs, s0)"
    by (auto split: prod.splits)
  have ok: "e0 = PVRSRV_OK" using sync_pool_get_result(5) [OF g] by auto
  have fr: "timelines s0 = timelines s" "sync_datas s0 = sync_datas s" "files s0 = files s"
    using g by (simp_all add: sync_pool_get_result)
  from sync_pool_get_result(6) [OF g ok] obtain q where
    q: "prims s0 fs = Some q" "\<forall>a. a \<noteq> fs \<longrightarrow> prims s0 a = prims s a"
       "next_value q = 0" "lin_value q = 0" by auto
  have ts0: "prims s0 ts = Some tp" using q(2) assms(4,7) by simp
  have fl: "sync_pool_free_list s0 = tl (sync_pool_free_list s)"
    using g by (auto simp: sync_pool_get_def Let_def
        split: list.splits prim_alloc.splits option.splits if_splits)
  note unf = pvr_sync_ioctl_alloc_fence_def pvr_sync_create_sync_data_def Let_def
    is_sync_met_def pvr_sync_free_sync_data_def EFAULT_def ENOMEM_def
  show "out = Some (lin_value tp = next_value tp \<and> \<not> fencing_enabled tlo, af_fd env)"
    using assms(1-3,5,7) g ok fr q(1) ts0 by (auto simp: unf split: if_splits)
  show "sync_datas s' sda =
          Some \<lparr>kernel = Some \<lparr>fence_sync = fs, cleanup_sync = None\<rparr>,
                timeline_fence_value = next_value tp,
                timeline_update_value =
                  (if lin_value tp = next_value tp \<and> \<not> fencing_enabled tlo then next_value tp
                   else next_value tp + 1),
                refcount = 1\<rparr>"
    using assms(1-3,5,7) g ok fr q(1) ts0 by (auto simp: unf split: if_splits)
  show "prims s' ts =
          Some (tp\<lparr>next_value :=
                  (if lin_value tp = next_value tp \<and> \<not> fencing_enabled tlo then next_value tp
                   else next_value tp + 1)\<rparr>)"
    using assms(1-3,5,7) g ok fr q(1) ts0 by (auto simp: unf split: if_splits)
  show "\<exists>q. prims s' fs = Some q \<and> next_value q = 0 \<and> lin_value q = 0"
    using assms(1-3,5,7) g ok fr q(1,3,4) ts0 by (auto simp: unf split: if_splits)
  show "timelines s' = timelines s"
    using assms(1-3,5,7) g ok fr q(1) ts0 by (auto simp: unf split: if_splits)
  show "files s' = (files s)(af_fd env \<mapsto>
           Alloc_file \<lparr>ad_sync_data = Some sda, ad_timeline = timeline\<rparr>)"
    using assms(1-3,5,7) g ok fr q(1) ts0 by (auto simp: unf split: if_splits)
  show "sync_pool_free_list s' = tl (sync_pool_free_list s)"
    using assms(1-3,5,7) g ok fr q(1) ts0 fl by (auto simp: unf split: if_splits)
qed

text \<open>
  C6. Let allocate-fence succeed on a timeline whose prim had \<open>next_value\<close>
  \<open>n\<close>, and let the handle later be released in any state in which it has not
  been converted (its file and sync data are as allocate-fence left them), its fence
  prim's \<open>next_value\<close> is still 0 and the timeline and its prim still exist. Then the
  handle recorded \<open>timeline_fence_value\<close> = \<open>n\<close>, the release returns 0 and the
  timeline prim's \<open>next_value\<close> is \<open>n\<close> again afterwards, whatever it was
  before the release.
\<close>

theorem alloc_release_restores_timeline:
  assumes "pvr_sync_ioctl_alloc_fence env timeline s = Some (0, out, s1)"
      and "timelines s timeline = Some tlo" "timeline_sync tlo = Some ts"
      and "prims s ts = Some tp"
      and "kzalloc_sync_data (af_sync_data env) = Some sda"
      and "map_option (\<lambda>(e, r, _). (e, r))
             (sync_pool_get (fence_prim_alloc (af_sync_data env)) (tl_name tlo)
                SYNC_PT_FENCE_TYPE s) = Some (e0, Some fs)"
      and "fs \<noteq> ts"
      and "files s2 (af_fd env) = files s1 (af_fd env)"
      and "sync_datas s2 sda = sync_datas s1 sda"
      and "timelines s2 timeline = timelines s1 timeline"
      and "prims s2 fs = Some fp2" "next_value fp2 = 0"
      and "prims s2 ts = Some tp2"
  shows "\<exists>sd s3. sync_datas s2 sda = Some sd
     \<and> timeline_fence_value sd = next_value tp
     \<and> pvr_sync_alloc_release (af_fd env) s2 = Some (0, s3)
     \<and> map_option next_value (prims s3 ts) = Some (next_value tp)"
proof -
  note a = alloc_fence_success_state [OF assms(1-7)]
  show ?thesis
    using a(2,5,6) assms(2,3,8-13)
    by (simp add: pvr_sync_alloc_release_def pvr_sync_free_sync_data_def
        pvr_sync_defer_free_def Let_def)
qed

theorem alloc_release_restores_timeline_witness:
  "\<exists>sd s3. sync_datas ex_allocated 20 = Some sd
     \<and> timeline_fence_value sd = 0
     \<and> map_option next_value (prims ex_allocated 10) = Some 1
     \<and> pvr_sync_alloc_release 5 ex_allocated = Some (0, s3)
     \<and> map_option next_value (prims s3 10) = Some 0"
proof -
  have h: "timelines ex_opened 30 = Some ex_timeline" "timeline_sync ex_timeline = Some 10"
    "prims ex_opened 10 = Some (ex_tl_prim 0)"
    "kzalloc_sync_data (af_sync_data ex_alloc_env) = Some 20"
    "map_option (\<lambda>(e, r, _). (e, r))
       (sync_pool_get (fence_prim_alloc (af_sync_data ex_alloc_env)) (tl_name ex_timeline)
          SYNC_PT_FENCE_TYPE ex_opened) = Some (PVRSRV_OK, Some 11)"
    "(11::nat) \<noteq> 10"
    by (simp_all add: sync_pool_get_def Let_def ex_defs)
  have l: "prims ex_allocated 11 = Some (ex_fence_prim 0)" "next_value (ex_fence_prim 0) = 0"
    "prims ex_allocated 10 = Some (ex_tl_prim 1)"
    by (simp_all add: ex_defs)
  show ?thesis
    using alloc_release_restores_timeline [OF ex_allocated_run h refl refl refl l] l(3)
    by (simp add: ex_tl_prim_def ex_alloc_env_def)
qed

subsection \<open>Capacity of the output arrays\<close>

lemma ex_live_run:
  "pvr_sync_ioctl_create_fence ex_create_env 30 ex_queried = Some (0, Some 6, ex_live)"
  by (simp add: pvr_sync_ioctl_create_fence_def pvr_sync_alloc_fence_fdget_def
      pvr_sync_create_sync_def Let_def fun_upd_twist ex_live_def ex_queried_def ex_defs)

lemma room_left:
  fixes m n :: u32
  assumes "n \<le> m" "\<not> m - n < word_of_nat k" "k < 2 ^ 32"
  shows "unat n + k \<le> unat m"
proof -
  have "unat (m - n) = unat m - unat n" using assms(1) by (simp add: unat_sub)
  moreover have "unat (word_of_nat k :: u32) = k"
    using assms(3) by (simp add: unat_of_nat)
  moreover have "unat n \<le> unat m" using assms(1) by (simp add: word_le_nat_alt)
  ultimately show ?thesis using assms(2) by (simp add: word_less_nat_alt)
qed

lemma no_room_left:
  fixes m n :: u32
  assumes "n \<le> m" "unat m - unat n < k" "k < 2 ^ 32"
  shows "m - n < word_of_nat k"
proof -
  have "unat (m - n) = unat m - unat n" using assms(1) by (simp add: unat_sub)
  moreover have "unat (word_of_nat k :: u32) = k"
    using assms(3) by (simp add: unat_of_nat)
  ultimately show ?thesis using assms(2) by (simp add: word_less_nat_alt)
qed

lemma put_fence_within:
  assumes "buffers_within m b" "unat (fence_num b) + 1 \<le> unat m"
  shows "buffers_within m (put_fence a v b)"
proof -
  have "unat (fence_num b + 1) = Suc (unat (fence_num b))"
    using unat_suc_bounded [OF assms(2)] by simp
  then show ?thesis
    using assms
    by (simp add: buffers_within_def put_fence_def array_store_def in_bounds_def
        word_le_nat_alt)
qed

lemma put_update_within:
  assumes "buffers_within m b" "unat (update_num b) + 1 \<le> unat m"
  shows "buffers_within m (put_update a v b)"
proof -
  have "unat (update_num b + 1) = Suc (unat (update_num b))"
    using unat_suc_bounded [OF assms(2)] by simp
  then show ?thesis
    using assms
    by (simp add: buffers_within_def put_update_def array_store_def in_bounds_def
        word_le_nat_alt)
qed

lemma put_pair_within:
  assumes "buffers_within m b" "\<not> (m - fence_num b < 1 \<or> m - update_num b < 1)"
  shows "buffers_within m (put_update a' v' (put_fence a v b))"
proof -
  have f: "unat (fence_num b) + 1 \<le> unat m"
    using room_left [of "fence_num b" m 1] assms by (simp add: buffers_within_def)
  have u: "unat (update_num b) + 1 \<le> unat m"
    using room_left [of "update_num b" m 1] assms by (simp add: buffers_within_def)
  have "update_num (put_fence a v b) = update_num b" by (simp add: put_fence_def)
  then show ?thesis
    using put_update_within [OF put_fence_within [OF assms(1) f]] u by simp
qed

lemma check_pt_buffers:
  assumes "check_pt env m pt have b s = Some (stop, have', e, b', s')"
  shows "b' = b \<or> (\<not> (m - fence_num b < 1 \<or> m - update_num b < 1)
            \<and> (\<exists>a v a' v'. b' = put_update a' v' (put_fence a v b)))"
  using assms
  by (auto simp: check_pt_def Let_def split: option.splits if_splits prod.splits)

lemma check_pt_within:
  assumes "check_pt env m pt have b s = Some (stop, have', e, b', s')" "buffers_within m b"
  shows "buffers_within m b'"
  using check_pt_buffers [OF assms(1)] assms(2) put_pair_within by blast

lemma check_pts_within:
  "check_pts env i m pts have b s = Some (stop, have', e, b', s') \<Longrightarrow> buffers_within m b
     \<Longrightarrow> buffers_within m b'"
proof (induction pts arbitrary: i "have" b s)
  case Nil
  then show ?case by simp
next
  case (Cons pt pts)
  from Cons.prems(1) obtain st1 h1 e1 b1 s1 where
    p: "check_pt (env i) m pt have b s = Some (st1, h1, e1, b1, s1)"
    by (auto split: option.splits)
  have w1: "buffers_within m b1" using check_pt_within [OF p Cons.prems(2)] .
  show ?case
  proof (cases st1)
    case True
    with Cons.prems(1) p w1 show ?thesis by simp
  next
    case False
    with Cons.prems(1) p have "check_pts env (Suc i) m pts h1 b1 s1 = Some (stop, have', e, b', s')"
      by simp
    from Cons.IH [OF this w1] show ?thesis .
  qed
qed

lemma query_check_within:
  assumes "pvr_sync_query_sync_check env fd m b s = Some (e, b', s')" "buffers_within m b"
  shows "buffers_within m b'"
proof (cases "sync_fence_fdget fd s")
  case None
  with assms show ?thesis by (simp add: pvr_sync_query_sync_check_def)
next
  case (Some fence)
  from assms(1) Some obtain stop hv e1 b1 s1 where
    l: "check_pts (ce_cleanup_alloc env) 0 m (pt_list fence) False b s
          = Some (stop, hv, e1, b1, s1)"
    by (auto simp: pvr_sync_query_sync_check_def split: option.splits)
  have w1: "buffers_within m b1" using check_pts_within [OF l assms(2)] .
  have "b' = b1 \<or> (\<not> (m - fence_num b1 < 1 \<or> m - update_num b1 < 1)
            \<and> (\<exists>a v a' v'. b' = put_update a' v' (put_fence a v b1)))"
    using assms(1) Some l
    by (auto simp: pvr_sync_query_sync_check_def split: option.splits if_splits) blast
  then show ?thesis using w1 put_pair_within by blast
qed

lemma query_update_within:
  assumes "pvr_sync_query_sync_update fd m b s = Some (e, b', s')" "buffers_within m b"
  shows "buffers_within m b'"
proof -
  have "b' = b \<or> (\<not> (m - fence_num b < 1 \<or> m - update_num b < 2)
            \<and> (\<exists>a v a' v' a'' v''. b' = put_update a'' v'' (put_fence a' v' (put_update a v b))))"
    using assms(1)
    by (auto simp: pvr_sync_query_sync_update_def Let_def split: option.splits if_splits)
       blast+
  then show ?thesis
  proof
    assume "b' = b" then show ?thesis using assms(2) by simp
  next
    assume r: "\<not> (m - fence_num b < 1 \<or> m - update_num b < 2)
            \<and> (\<exists>a v a' v' a'' v''. b' = put_update a'' v'' (put_fence a' v' (put_update a v b)))"
    then obtain a v a' v' a'' v'' where
      b': "b' = put_update a'' v'' (put_fence a' v' (put_update a v b))" by blast
    have f: "unat (fence_num b) + 1 \<le> unat m"
      using room_left [of "fence_num b" m 1] assms(2) r by (simp add: buffers_within_def)
    have u: "unat (update_num b) + 2 \<le> unat m"
      using room_left [of "update_num b" m 2] assms(2) r by (simp add: buffers_within_def)
    have u1: "unat (update_num b + 1) = Suc (unat (update_num b))"
      using unat_suc_bounded [OF u] by simp
    have w1: "buffers_within m (put_update a v b)"
      using put_update_within [OF assms(2)] u by simp
    have w2: "buffers_within m (put_fence a' v' (put_update a v b))"
      using put_fence_within [OF w1] f by (simp add: put_update_def)
    show ?thesis
      unfolding b' using put_update_within [OF w2] u u1
      by (simp add: put_update_def put_fence_def)
  qed
qed

lemma query_fences_within:
  "pvr_sync_query_fences env i fds update m b s = Some (e, b', s') \<Longrightarrow> buffers_within m b
     \<Longrightarrow> buffers_within m b'"
proof (induction fds arbitrary: i b s)
  case Nil
  then show ?case by simp
next
  case (Cons fd fds)
  from Cons.prems(1) obtain e1 b1 s1 where
    q: "pvr_sync_query_fence (env i) fd update m b s = Some (e1, b1, s1)"
    by (auto split: option.splits)
  have w1: "buffers_within m b1"
    using q Cons.prems(2) query_update_within query_check_within
    by (auto simp: pvr_sync_query_fence_def split: if_splits)
  show ?case
  proof (cases "e1 = PVRSRV_OK")
    case True
    with Cons.prems(1) q have
      "pvr_sync_query_fences env (Suc i) fds update m b1 s1 = Some (e, b', s')" by simp
    from Cons.IH [OF this w1] show ?thesis .
  next
    case False
    with Cons.prems(1) q w1 show ?thesis by simp
  qed
qed

lemma check_pts_append:
  "check_pts env i m pre have b s = Some (False, h1, e1, b1, s1)
     \<Longrightarrow> check_pts env i m (pre @ rest) have b s = check_pts env (i + length pre) m rest h1 b1 s1"
proof (induction pre arbitrary: i "have" b s)
  case Nil
  then show ?case by simp
next
  case (Cons pt pre)
  from Cons.prems obtain st2 h2 e2 b2 s2 where
    p: "check_pt (env i) m pt have b s = Some (st2, h2, e2, b2, s2)"
    by (auto split: option.splits)
  have ns: "\<not> st2" using Cons.prems p by (auto split: if_splits)
  then have "check_pts env (Suc i) m pre h2 b2 s2 = Some (False, h1, e1, b1, s1)"
    using Cons.prems p by simp
  from Cons.IH [OF this] show ?case using p ns by simp
qed

text \<open>
  C9. Let the output arrays have \<open>max_entries\<close> elements and the counters not
  exceed \<open>max_entries\<close>. (1) In update mode, when fewer than 1 wait slot or fewer
  than 2 update slots remain, the query on a live alloc handle returns PVRSRV\_OK and
  hands back buffers, counters and state untouched. (2) In check mode, when the loop
  reaches an unsatisfied point of this driver with no wait slot or no update slot left,
  the query returns PVRSRV\_OK with exactly the buffers and state accumulated up to that
  point; the rest of the fence is not processed. (3) Whatever pvr\_sync\_query\_fences
  returns, in either mode, the arrays keep their size, the counters do not exceed
  \<open>max_entries\<close> and no store has landed at an index \<open>\<ge> max_entries\<close>.
\<close>

theorem query_capacity_soft_overflow:
  assumes "buffers_within max_entries b"
  shows "(files s fd = Some (Alloc_file ad) \<and> ad_sync_data ad = Some sda
          \<and> sync_datas s sda = Some sd
          \<and> (unat max_entries - unat (fence_num b) < 1
               \<or> unat max_entries - unat (update_num b) < 2)
        \<longrightarrow> pvr_sync_query_sync_update fd max_entries b s = Some (PVRSRV_OK, b, s))
     \<and> (sync_fence_fdget fd s = Some fence \<and> pt_list fence = pre @ pt # post
          \<and> check_pts (ce_cleanup_alloc env) 0 max_entries pre False b s
               = Some (False, hv, PVRSRV_OK, b1, s1)
          \<and> parent_pvr pt \<and> pt_sync_data pt = Some pda \<and> sync_datas s1 pda = Some pd
          \<and> kernel pd = Some k \<and> prims s1 (fence_sync k) = Some p
          \<and> lin_value p \<noteq> next_value p
          \<and> (unat max_entries - unat (fence_num b1) < 1
               \<or> unat max_entries - unat (update_num b1) < 1)
        \<longrightarrow> pvr_sync_query_sync_check env fd max_entries b s = Some (PVRSRV_OK, b1, s1))
     \<and> (pvr_sync_query_fences envs i fds update max_entries b s = Some (e, b', s')
        \<longrightarrow> buffers_within max_entries b')"
proof (intro conjI impI)
  assume h: "files s fd = Some (Alloc_file ad) \<and> ad_sync_data ad = Some sda
      \<and> sync_datas s sda = Some sd
      \<and> (unat max_entries - unat (fence_num b) < 1
           \<or> unat max_entries - unat (update_num b) < 2)"
  have le: "fence_num b \<le> max_entries" "update_num b \<le> max_entries"
    using assms by (simp_all add: buffers_within_def)
  have "max_entries - fence_num b < 1 \<or> max_entries - update_num b < 2"
    using h no_room_left [OF le(1), of 1] no_room_left [OF le(2), of 2] by auto
  then show "pvr_sync_query_sync_update fd max_entries b s = Some (PVRSRV_OK, b, s)"
    using h by (auto simp: pvr_sync_query_sync_update_def pvr_sync_alloc_fence_fdget_def)
next
  assume h: "sync_fence_fdget fd s = Some fence \<and> pt_list fence = pre @ pt # post
      \<and> check_pts (ce_cleanup_alloc env) 0 max_entries pre False b s
           = Some (False, hv, PVRSRV_OK, b1, s1)
      \<and> parent_pvr pt \<and> pt_sync_data pt = Some pda \<and> sync_datas s1 pda = Some pd
      \<and> kernel pd = Some k \<and> prims s1 (fence_sync k) = Some p
      \<and> lin_value p \<noteq> next_value p
      \<and> (unat max_entries - unat (fence_num b1) < 1
           \<or> unat max_entries - unat (update_num b1) < 1)"
  then have pre: "check_pts (ce_cleanup_alloc env) 0 max_entries pre False b s
           = Some (False, hv, PVRSRV_OK, b1, s1)" by simp
  have w1: "buffers_within max_entries b1" using check_pts_within [OF pre assms] .
  then have le: "fence_num b1 \<le> max_entries" "update_num b1 \<le> max_entries"
    by (simp_all add: buffers_within_def)
  have full: "max_entries - fence_num b1 < 1 \<or> max_entries - update_num b1 < 1"
    using h no_room_left [OF le(1), of 1] no_room_left [OF le(2), of 1] by auto
  have pt: "check_pt (ce_cleanup_alloc env (length pre)) max_entries pt hv b1 s1
              = Some (True, hv, PVRSRV_OK, b1, s1)"
    using h full by (auto simp: check_pt_def is_sync_met_def)
  have "check_pts (ce_cleanup_alloc env) 0 max_entries (pre @ pt # post) False b s
          = Some (True, hv, PVRSRV_OK, b1, s1)"
    using check_pts_append [OF pre, of "pt # post"] pt by simp
  then show "pvr_sync_query_sync_check env fd max_entries b s = Some (PVRSRV_OK, b1, s1)"
    using h by (simp add: pvr_sync_query_sync_check_def)
next
  assume "pvr_sync_query_fences envs i fds update max_entries b s = Some (e, b', s')"
  then show "buffers_within max_entries b'" using query_fences_within assms by blast
qed

theorem query_capacity_soft_overflow_witness:
  "pvr_sync_query_sync_update 5 1 (empty_buffers 1) ex_allocated
      = Some (PVRSRV_OK, empty_buffers 1, ex_allocated)
   \<and> pvr_sync_query_sync_check ex_check_env 6 0 (empty_buffers 0) ex_live
      = Some (PVRSRV_OK, empty_buffers 0, ex_live)
   \<and> pvr_sync_query_fences (\<lambda>i. ex_check_env) 0 [5] True 4 (empty_buffers 4) ex_allocated
      = Some (PVRSRV_OK, ex_buffers, ex_queried)
   \<and> buffers_within 4 ex_buffers"
proof -
  have w: "buffers_within 1 (empty_buffers 1)" "buffers_within 0 (empty_buffers 0)"
    "buffers_within 4 (empty_buffers 4)"
    by (simp_all add: buffers_within_def empty_buffers_def)
  have u: "files ex_allocated 5 = Some (Alloc_file \<lparr>ad_sync_data = Some 20, ad_timeline = 30\<rparr>)
      \<and> ad_sync_data \<lparr>ad_sync_data = Some 20, ad_timeline = 30\<rparr> = Some 20
      \<and> sync_datas ex_allocated 20 = Some ex_sync_data
      \<and> (unat (1::u32) - unat (fence_num (empty_buffers 1)) < 1
           \<or> unat (1::u32) - unat (update_num (empty_buffers 1)) < 2)"
    by (simp add: ex_defs)
  have c: "sync_fence_fdget 6 ex_live = Some \<lparr>fence_name = ''fence'', pt_list = [ex_pt]\<rparr>
      \<and> pt_list \<lparr>fence_name = ''fence'', pt_list = [ex_pt]\<rparr> = [] @ ex_pt # []
      \<and> check_pts (ce_cleanup_alloc ex_check_env) 0 0 [] False (empty_buffers 0) ex_live
           = Some (False, False, PVRSRV_OK, empty_buffers 0, ex_live)
      \<and> parent_pvr ex_pt \<and> pt_sync_data ex_pt = Some 20
      \<and> sync_datas ex_live 20 = Some ex_sync_data
      \<and> kernel ex_sync_data = Some \<lparr>fence_sync = 11, cleanup_sync = None\<rparr>
      \<and> prims ex_live (fence_sync \<lparr>fence_sync = 11, cleanup_sync = None\<rparr>)
           = Some (ex_fence_prim 1)
      \<and> lin_value (ex_fence_prim 1) \<noteq> next_value (ex_fence_prim 1)
      \<and> (unat (0::u32) - unat (fence_num (empty_buffers 0)) < 1
           \<or> unat (0::u32) - unat (update_num (empty_buffers 0)) < 1)"
    by (simp add: sync_fence_fdget_def ex_live_def ex_queried_def ex_defs)
  have f: "pvr_sync_query_fences (\<lambda>i. ex_check_env) 0 [5] True 4 (empty_buffers 4) ex_allocated
      = Some (PVRSRV_OK, ex_buffers, ex_queried)"
    by (simp add: pvr_sync_query_fence_def ex_queried_run)
  have 1: "pvr_sync_query_sync_update 5 1 (empty_buffers 1) ex_allocated
      = Some (PVRSRV_OK, empty_buffers 1, ex_allocated)"
    using query_capacity_soft_overflow [OF w(1), THEN conjunct1, rule_format, OF u] .
  have 2: "pvr_sync_query_sync_check ex_check_env 6 0 (empty_buffers 0) ex_live
      = Some (PVRSRV_OK, empty_buffers 0, ex_live)"
    using query_capacity_soft_overflow
      [OF w(2), THEN conjunct2, THEN conjunct1, rule_format, OF c] .
  have 3: "buffers_within 4 ex_buffers"
    using query_capacity_soft_overflow
      [OF w(3), THEN conjunct2, THEN conjunct2, rule_format, OF f] .
  show ?thesis using 1 2 3 f by simp
qed

subsection \<open>The check-mode query\<close>

lemma waits_put_fence:
  assumes "buffers_within m b" "unat (fence_num b) + 1 \<le> unat m"
  shows "waits (put_fence a v b) = waits b @ [(a, v)]"
    and "updates (put_fence a v b) = updates b"
proof -
  have n: "unat (fence_num b + 1) = Suc (unat (fence_num b))"
    using unat_suc_bounded [OF assms(2)] by simp
  have l: "unat (fence_num b) < length (fence_ufo_address b)"
    "unat (fence_num b) < length (fence_value b)"
    using assms by (simp_all add: buffers_within_def)
  show "waits (put_fence a v b) = waits b @ [(a, v)]"
    using n l
    by (simp add: waits_def put_fence_def array_store_def take_Suc_conv_app_nth)
  show "updates (put_fence a v b) = updates b"
    by (simp add: updates_def put_fence_def)
qed

lemma updates_put_update:
  assumes "buffers_within m b" "unat (update_num b) + 1 \<le> unat m"
  shows "updates (put_update a v b) = updates b @ [(a, v)]"
    and "waits (put_update a v b) = waits b"
proof -
  have n: "unat (update_num b + 1) = Suc (unat (update_num b))"
    using unat_suc_bounded [OF assms(2)] by simp
  have l: "unat (update_num b) < length (update_ufo_address b)"
    "unat (update_num b) < length (update_value b)"
    using assms by (simp_all add: buffers_within_def)
  show "updates (put_update a v b) = updates b @ [(a, v)]"
    using n l
    by (simp add: updates_def put_update_def array_store_def take_Suc_conv_app_nth)
  show "waits (put_update a v b) = waits b"
    by (simp add: waits_def put_update_def)
qed

lemma put_pair_entries:
  assumes "buffers_within m b" "unat (fence_num b) + 1 \<le> unat m"
      and "unat (update_num b) + 1 \<le> unat m"
  shows "waits (put_update a' v' (put_fence a v b)) = waits b @ [(a, v)]"
    and "updates (put_update a' v' (put_fence a v b)) = updates b @ [(a', v')]"
    and "buffers_within m (put_update a' v' (put_fence a v b))"
    and "fence_num (put_update a' v' (put_fence a v b)) = fence_num b + 1"
    and "update_num (put_update a' v' (put_fence a v b)) = update_num b + 1"
proof -
  have w: "buffers_within m (put_fence a v b)"
    using put_fence_within [OF assms(1,2)] .
  have u: "unat (update_num (put_fence a v b)) + 1 \<le> unat m"
    using assms(3) by (simp add: put_fence_def)
  show "waits (put_update a' v' (put_fence a v b)) = waits b @ [(a, v)]"
    using updates_put_update(2) [OF w u] waits_put_fence(1) [OF assms(1,2)] by simp
  show "updates (put_update a' v' (put_fence a v b)) = updates b @ [(a', v')]"
    using updates_put_update(1) [OF w u] waits_put_fence(2) [OF assms(1,2)] by simp
  show "buffers_within m (put_update a' v' (put_fence a v b))"
    using put_update_within [OF w u] .
  show "fence_num (put_update a' v' (put_fence a v b)) = fence_num b + 1"
    by (simp add: put_update_def put_fence_def)
  show "update_num (put_update a' v' (put_fence a v b)) = update_num b + 1"
    by (simp add: put_update_def put_fence_def)
qed

lemma pt_kernel_after:
  assumes "\<forall>x. x \<noteq> sda \<longrightarrow> sync_datas s' x = sync_datas s x"
      and "sync_datas s' sda = Some (sd\<lparr>kernel := Some (k\<lparr>cleanup_sync := Some c\<rparr>)\<rparr>)"
      and "sync_datas s sda = Some sd" "kernel sd = Some k"
  shows "pt_kernel s' pt =
           (if pt_sync_data pt = Some sda then Some (k\<lparr>cleanup_sync := Some c\<rparr>)
            else pt_kernel s pt)"
    and "pt_sync_data pt = Some sda \<Longrightarrow> pt_kernel s pt = Some k"
    and "deref_sync_data (pt_sync_data pt) s' \<noteq> None
           \<longleftrightarrow> deref_sync_data (pt_sync_data pt) s \<noteq> None"
  using assms
  by (auto simp: pt_kernel_def deref_sync_data_def split: option.splits)

lemma frame_keeps_points:
  assumes h: "check_heap s env F pts"
      and t: "timelines s' = timelines s"
      and p: "\<forall>a \<in> F. prims s' a = prims s a"
      and e: "\<forall>a. prims s a \<noteq> None \<longrightarrow> prims s' a \<noteq> None"
      and d: "\<forall>x. x \<noteq> sda \<longrightarrow> sync_datas s' x = sync_datas s x"
      and d1: "sync_datas s' sda = Some (sd\<lparr>kernel := Some (k\<lparr>cleanup_sync := Some c\<rparr>)\<rparr>)"
      and d2: "sync_datas s sda = Some sd" "kernel sd = Some k"
      and c: "c \<notin> F" "prims s' c \<noteq> None"
      and f: "set (sync_pool_free_list s') \<subseteq> set (sync_pool_free_list s)"
  shows "check_heap s' env F pts"
    and "\<forall>pt \<in> set pts. pt_unsatisfied s' pt = pt_unsatisfied s pt
                       \<and> (parent_pvr pt \<longrightarrow> pt_wait_entry s' pt = pt_wait_entry s pt)"
proof -
  note ka = pt_kernel_after [OF d d1 d2]
  have fl: "\<forall>c \<in> set (sync_pool_free_list s'). c \<notin> F \<and> prims s' c \<noteq> None"
    using h f e by (auto simp: check_heap_def)
  have pts: "\<forall>pt \<in> set pts. parent_pvr pt \<longrightarrow>
         deref_sync_data (pt_sync_data pt) s' \<noteq> None
         \<and> timelines s' (parent pt) \<noteq> None
         \<and> (\<forall>k. pt_kernel s' pt = Some k \<longrightarrow>
               fence_sync k \<in> F \<and> prims s' (fence_sync k) \<noteq> None
               \<and> (\<forall>c. cleanup_sync k = Some c \<longrightarrow> c \<notin> F \<and> prims s' c \<noteq> None))"
  proof (intro ballI impI)
    fix pt assume pt: "pt \<in> set pts" "parent_pvr pt"
    from h pt have o: "deref_sync_data (pt_sync_data pt) s \<noteq> None"
      "timelines s (parent pt) \<noteq> None"
      "\<forall>k. pt_kernel s pt = Some k \<longrightarrow>
               fence_sync k \<in> F \<and> prims s (fence_sync k) \<noteq> None
               \<and> (\<forall>c. cleanup_sync k = Some c \<longrightarrow> c \<notin> F \<and> prims s c \<noteq> None)"
      by (auto simp: check_heap_def)
    show "deref_sync_data (pt_sync_data pt) s' \<noteq> None
         \<and> timelines s' (parent pt) \<noteq> None
         \<and> (\<forall>k. pt_kernel s' pt = Some k \<longrightarrow>
               fence_sync k \<in> F \<and> prims s' (fence_sync k) \<noteq> None
               \<and> (\<forall>c. cleanup_sync k = Some c \<longrightarrow> c \<notin> F \<and> prims s' c \<noteq> None))"
    proof (cases "pt_sync_data pt = Some sda")
      case True
      have ks: "pt_kernel s pt = Some k" using ka(2) [OF True] .
      with o(3) have "fence_sync k \<in> F" "prims s (fence_sync k) \<noteq> None" by auto
      then show ?thesis
        using True ka(1) [of pt] ka(3) [of pt] o(1,2) t e c by auto
    next
      case False
      then show ?thesis
        using ka(1) [of pt] ka(3) [of pt] o t e by auto
    qed
  qed
  show "check_heap s' env F pts"
    using h fl pts by (simp add: check_heap_def)
  show "\<forall>pt \<in> set pts. pt_unsatisfied s' pt = pt_unsatisfied s pt
                       \<and> (parent_pvr pt \<longrightarrow> pt_wait_entry s' pt = pt_wait_entry s pt)"
  proof
    fix pt assume pt: "pt \<in> set pts"
    show "pt_unsatisfied s' pt = pt_unsatisfied s pt
            \<and> (parent_pvr pt \<longrightarrow> pt_wait_entry s' pt = pt_wait_entry s pt)"
    proof (cases "parent_pvr pt")
      case False
      then show ?thesis by (simp add: pt_unsatisfied_def)
    next
      case True
      from h pt True have o:
        "\<forall>k. pt_kernel s pt = Some k \<longrightarrow> fence_sync k \<in> F"
        by (auto simp: check_heap_def)
      show ?thesis
      proof (cases "pt_sync_data pt = Some sda")
        case True
        have ks: "pt_kernel s pt = Some k" using ka(2) [OF True] .
        with o have "fence_sync k \<in> F" by simp
        then show ?thesis
          using True ks ka(1) [of pt] p
          by (simp add: pt_unsatisfied_def pt_wait_entry_def)
      next
        case False
        then have same: "pt_kernel s' pt = pt_kernel s pt" using ka(1) [of pt] by simp
        show ?thesis
        proof (cases "pt_kernel s pt")
          case None
          then show ?thesis using same by (simp add: pt_unsatisfied_def pt_wait_entry_def)
        next
          case (Some k0)
          with o have "fence_sync k0 \<in> F" by simp
          then show ?thesis
            using Some same p by (simp add: pt_unsatisfied_def pt_wait_entry_def)
        qed
      qed
    qed
  qed
qed

lemma check_pt_skip:
  assumes "check_heap s env F (pt # pts)" "\<not> pt_unsatisfied s pt"
  shows "check_pt e m pt hv b s
           = Some (False, hv \<or> (\<not> parent_pvr pt \<and> pt_status pt = 0), PVRSRV_OK, b, s)"
proof (cases "parent_pvr pt")
  case False
  then show ?thesis by (simp add: check_pt_def)
next
  case True
  from assms(1) True obtain sda sd where
    sd: "pt_sync_data pt = Some sda" "sync_datas s sda = Some sd"
    by (auto simp: check_heap_def deref_sync_data_def split: option.splits)
  show ?thesis
  proof (cases "kernel sd")
    case None
    then show ?thesis using True sd by (simp add: check_pt_def)
  next
    case (Some k)
    then have pk: "pt_kernel s pt = Some k"
      using sd by (simp add: pt_kernel_def deref_sync_data_def)
    with assms(1) True obtain p where p: "prims s (fence_sync k) = Some p"
      by (auto simp: check_heap_def)
    with assms(2) True pk have "lin_value p = next_value p"
      by (simp add: pt_unsatisfied_def)
    then show ?thesis
      using True sd Some p by (simp add: check_pt_def is_sync_met_def)
  qed
qed

lemma sync_pool_get_heap:
  assumes "\<forall>c \<in> set (sync_pool_free_list s). c \<notin> F \<and> prims s c \<noteq> None"
      and "env = Kmalloc_ok a PVRSRV_OK fw" "a \<notin> F"
  shows "\<exists>c q s1. sync_pool_get env cn ty s = Some (PVRSRV_OK, Some c, s1)
     \<and> c \<notin> F \<and> prims s1 c = Some q \<and> (\<forall>x. x \<noteq> c \<longrightarrow> prims s1 x = prims s x)
     \<and> next_value q = 0
     \<and> timelines s1 = timelines s \<and> sync_datas s1 = sync_datas s
     \<and> set (sync_pool_free_list s1) \<subseteq> set (sync_pool_free_list s)"
proof (cases "sync_pool_free_list s")
  case Nil
  then show ?thesis using assms(2,3) by (simp add: sync_pool_get_def Let_def)
next
  case (Cons c rest)
  with assms(1) obtain p where "c \<notin> F" "prims s c = Some p" by auto
  then show ?thesis using Cons by (auto simp: sync_pool_get_def Let_def)
qed

lemma check_pt_unsat_step:
  assumes h: "check_heap s env F (pt # pts)" and u: "pt_unsatisfied s pt"
      and w: "buffers_within m b"
      and r: "unat (fence_num b) + 1 \<le> unat m" "unat (update_num b) + 1 \<le> unat m"
  shows "\<exists>b' s'. check_pt (env i) m pt hv b s = Some (False, hv, PVRSRV_OK, b', s')
     \<and> waits b' = waits b @ [pt_wait_entry s pt]
     \<and> updates b' = updates b @ [pt_update_entry s' pt]
     \<and> snd (pt_update_entry s' pt) = pt_cleanup_target s pt
     \<and> (\<exists>k' c. pt_kernel s' pt = Some k' \<and> cleanup_sync k' = Some c \<and> prims s' c \<noteq> None)
     \<and> buffers_within m b'
     \<and> fence_num b' = fence_num b + 1 \<and> update_num b' = update_num b + 1
     \<and> check_heap s' env F (pt # pts)
     \<and> (\<forall>pt' \<in> set (pt # pts). pt_unsatisfied s' pt' = pt_unsatisfied s pt'
            \<and> (parent_pvr pt' \<longrightarrow> pt_wait_entry s' pt' = pt_wait_entry s pt'))"
proof -
  from u have pvr: "parent_pvr pt" by (simp add: pt_unsatisfied_def)
  from u obtain k fp where
    pk: "pt_kernel s pt = Some k" and fp: "prims s (fence_sync k) = Some fp"
    and ne: "lin_value fp \<noteq> next_value fp"
    by (auto simp: pt_unsatisfied_def split: option.splits)
  from pk obtain sda sd where
    sd: "pt_sync_data pt = Some sda" "sync_datas s sda = Some sd" "kernel sd = Some k"
    by (auto simp: pt_kernel_def deref_sync_data_def split: option.splits)
  from h pvr pk have inF: "fence_sync k \<in> F"
    and cl: "\<forall>c. cleanup_sync k = Some c \<longrightarrow> c \<notin> F \<and> prims s c \<noteq> None"
    and tl: "timelines s (parent pt) \<noteq> None"
    by (auto simp: check_heap_def)
  from h have fl: "\<forall>c \<in> set (sync_pool_free_list s). c \<notin> F \<and> prims s c \<noteq> None"
    and en: "\<exists>a fw. env i = Kmalloc_ok a PVRSRV_OK fw \<and> a \<notin> F"
    by (auto simp: check_heap_def)
  have c1: "\<not> (m - fence_num b < 1 \<or> m - update_num b < 1)"
    using capacity_left [OF r(1)] capacity_left [OF r(2)] by simp
  have we: "pt_wait_entry s pt = (vaddr fp, next_value fp)"
    using pk fp by (simp add: pt_wait_entry_def)
  show ?thesis
  proof (cases "cleanup_sync k")
    case (Some c)
    with cl obtain cp where c: "c \<notin> F" "prims s c = Some cp" by auto
    have cne: "c \<noteq> fence_sync k" using c(1) inF by auto
    define s' where "s' = s\<lparr>prims := (prims s)(c \<mapsto> cp\<lparr>next_value := next_value cp + 1\<rparr>)\<rparr>"
    define b' where "b' = put_update (vaddr cp) (next_value cp + 1)
                            (put_fence (vaddr fp) (next_value fp) b)"
    have run: "check_pt (env i) m pt hv b s = Some (False, hv, PVRSRV_OK, b', s')"
      using pvr sd fp ne c1 Some c(2) cne
      by (simp add: check_pt_def is_sync_met_def Let_def s'_def b'_def)
    have sdk: "sd\<lparr>kernel := Some (k\<lparr>cleanup_sync := Some c\<rparr>)\<rparr> = sd"
      using sd(3) Some by simp
    have fr: "check_heap s' env F (pt # pts)"
      "\<forall>pt' \<in> set (pt # pts). pt_unsatisfied s' pt' = pt_unsatisfied s pt'
            \<and> (parent_pvr pt' \<longrightarrow> pt_wait_entry s' pt' = pt_wait_entry s pt')"
      using frame_keeps_points [OF h, where s' = s' and sda = sda and sd = sd and k = k and c = c]
        sd c sdk
      by (auto simp: s'_def)
    have pk': "pt_kernel s' pt = Some k"
      using sd by (simp add: pt_kernel_def deref_sync_data_def s'_def)
    have ue: "pt_update_entry s' pt = (vaddr cp, next_value cp + 1)"
      using pk' Some by (simp add: pt_update_entry_def s'_def)
    have tg: "pt_cleanup_target s pt = next_value cp + 1"
      using pk Some c(2) by (simp add: pt_cleanup_target_def)
    have ex: "\<exists>k' c. pt_kernel s' pt = Some k' \<and> cleanup_sync k' = Some c \<and> prims s' c \<noteq> None"
      using pk' Some by (simp add: s'_def)
    show ?thesis
      using run put_pair_entries [OF w r, of "vaddr cp" "next_value cp + 1" "vaddr fp" "next_value fp"]
        we ue tg ex fr
      unfolding b'_def [symmetric] by simp
  next
    case None
    from tl obtain tlo where tlo: "timelines s (parent pt) = Some tlo" by auto
    from en obtain a fw where env: "env i = Kmalloc_ok a PVRSRV_OK fw" "a \<notin> F" by auto
    from sync_pool_get_heap [OF fl env, of "tl_name tlo" SYNC_PT_CLEANUP_TYPE]
    obtain c q s1 where
      g: "sync_pool_get (env i) (tl_name tlo) SYNC_PT_CLEANUP_TYPE s
            = Some (PVRSRV_OK, Some c, s1)"
      and c: "c \<notin> F" and q1: "prims s1 c = Some q"
      and q2: "\<forall>x. x \<noteq> c \<longrightarrow> prims s1 x = prims s x" and q: "next_value q = 0"
      and s1: "timelines s1 = timelines s" "sync_datas s1 = sync_datas s"
        "set (sync_pool_free_list s1) \<subseteq> set (sync_pool_free_list s)"
      by blast
    have cne: "c \<noteq> fence_sync k" using c inF by auto
    have fp1: "prims s1 (fence_sync k) = Some fp" using q2 cne fp by simp
    define s' where "s' = s1\<lparr>sync_datas := (sync_datas s1)(sda \<mapsto>
                              sd\<lparr>kernel := Some (k\<lparr>cleanup_sync := Some c\<rparr>)\<rparr>),
                            prims := (prims s1)(c \<mapsto> q\<lparr>next_value := next_value q + 1\<rparr>)\<rparr>"
    define b' where "b' = put_update (vaddr q) (next_value q + 1)
                            (put_fence (vaddr fp) (next_value fp) b)"
    have run: "check_pt (env i) m pt hv b s = Some (False, hv, PVRSRV_OK, b', s')"
      using pvr sd fp ne c1 None tlo g q1 fp1 s1(2) cne
      by (simp add: check_pt_def is_sync_met_def Let_def s'_def b'_def)
    have fr: "check_heap s' env F (pt # pts)"
      "\<forall>pt' \<in> set (pt # pts). pt_unsatisfied s' pt' = pt_unsatisfied s pt'
            \<and> (parent_pvr pt' \<longrightarrow> pt_wait_entry s' pt' = pt_wait_entry s pt')"
      using frame_keeps_points [OF h, where s' = s' and sda = sda and sd = sd and k = k and c = c]
        sd c q1 q2 s1
      by (auto simp: s'_def)
    have pk': "pt_kernel s' pt = Some (k\<lparr>cleanup_sync := Some c\<rparr>)"
      using sd by (simp add: pt_kernel_def deref_sync_data_def s'_def)
    have ue: "pt_update_entry s' pt = (vaddr q, next_value q + 1)"
      using pk' by (simp add: pt_update_entry_def s'_def)
    have tg: "pt_cleanup_target s pt = next_value q + 1"
      using pk None q by (simp add: pt_cleanup_target_def)
    have ex: "\<exists>k' c. pt_kernel s' pt = Some k' \<and> cleanup_sync k' = Some c \<and> prims s' c \<noteq> None"
      using pk' by (simp add: s'_def)
    show ?thesis
      using run put_pair_entries [OF w r, of "vaddr q" "next_value q + 1" "vaddr fp" "next_value fp"]
        we ue tg ex fr
      unfolding b'_def [symmetric] by simp
  qed
qed

lemma check_heap_tail: "check_heap s env F (pt # pts) \<Longrightarrow> check_heap s env F pts"
  by (simp add: check_heap_def)

lemma check_pts_entries:
  "check_heap s env F pts \<Longrightarrow> buffers_within m b
   \<Longrightarrow> unat (fence_num b) + length (filter (pt_unsatisfied s) pts) \<le> unat m
   \<Longrightarrow> unat (update_num b) + length (filter (pt_unsatisfied s) pts) \<le> unat m
   \<Longrightarrow> \<exists>b1 s1. check_pts env i m pts hv b s
          = Some (False, hv \<or> (\<exists>pt \<in> set pts. \<not> parent_pvr pt \<and> pt_status pt = 0),
                  PVRSRV_OK, b1, s1)
        \<and> waits b1 = waits b @ map (pt_wait_entry s) (filter (pt_unsatisfied s) pts)
        \<and> length (updates b1)
            = length (updates b) + length (filter (pt_unsatisfied s) pts)
        \<and> take (length (updates b)) (updates b1) = updates b"
proof (induction pts arbitrary: i hv b s)
  case Nil
  then show ?case by simp
next
  case (Cons pt pts)
  show ?case
  proof (cases "pt_unsatisfied s pt")
    case False
    have st: "check_pt (env i) m pt hv b s
           = Some (False, hv \<or> (\<not> parent_pvr pt \<and> pt_status pt = 0), PVRSRV_OK, b, s)"
      using check_pt_skip [OF Cons.prems(1) False] .
    from Cons.IH [OF check_heap_tail [OF Cons.prems(1)] Cons.prems(2),
        of "Suc i" "hv \<or> (\<not> parent_pvr pt \<and> pt_status pt = 0)"]
      Cons.prems(3,4) False
    obtain b1 s1 where
      "check_pts env (Suc i) m pts (hv \<or> (\<not> parent_pvr pt \<and> pt_status pt = 0)) b s
          = Some (False, (hv \<or> (\<not> parent_pvr pt \<and> pt_status pt = 0))
                    \<or> (\<exists>pt \<in> set pts. \<not> parent_pvr pt \<and> pt_status pt = 0),
                  PVRSRV_OK, b1, s1)"
      "waits b1 = waits b @ map (pt_wait_entry s) (filter (pt_unsatisfied s) pts)"
      "length (updates b1) = length (updates b) + length (filter (pt_unsatisfied s) pts)"
      "take (length (updates b)) (updates b1) = updates b"
      by auto
    then show ?thesis using st False by (auto simp: disj_assoc)
  next
    case True
    have r: "unat (fence_num b) + 1 \<le> unat m" "unat (update_num b) + 1 \<le> unat m"
      using Cons.prems(3,4) True by simp_all
    from check_pt_unsat_step [OF Cons.prems(1) True Cons.prems(2) r, of i hv]
    obtain b' s' where
      st: "check_pt (env i) m pt hv b s = Some (False, hv, PVRSRV_OK, b', s')"
      and wa: "waits b' = waits b @ [pt_wait_entry s pt]"
      and up: "updates b' = updates b @ [pt_update_entry s' pt]"
      and wi: "buffers_within m b'"
      and nu: "fence_num b' = fence_num b + 1" "update_num b' = update_num b + 1"
      and he: "check_heap s' env F (pt # pts)"
      and sa: "\<forall>pt' \<in> set (pt # pts). pt_unsatisfied s' pt' = pt_unsatisfied s pt'
            \<and> (parent_pvr pt' \<longrightarrow> pt_wait_entry s' pt' = pt_wait_entry s pt')"
      by blast
    have fs: "filter (pt_unsatisfied s') pts = filter (pt_unsatisfied s) pts"
      using sa by (auto intro: filter_cong)
    have ws: "map (pt_wait_entry s') (filter (pt_unsatisfied s) pts)
                = map (pt_wait_entry s) (filter (pt_unsatisfied s) pts)"
      using sa by (auto simp: pt_unsatisfied_def)
    have n1: "unat (fence_num b') = Suc (unat (fence_num b))"
      "unat (update_num b') = Suc (unat (update_num b))"
      using nu unat_suc_bounded [OF r(1)] unat_suc_bounded [OF r(2)] by simp_all
    have r': "unat (fence_num b') + length (filter (pt_unsatisfied s') pts) \<le> unat m"
      "unat (update_num b') + length (filter (pt_unsatisfied s') pts) \<le> unat m"
      using Cons.prems(3,4) True n1 fs by simp_all
    from Cons.IH [OF check_heap_tail [OF he] wi r', of "Suc i" hv]
    obtain b1 s1 where
      "check_pts env (Suc i) m pts hv b' s'
          = Some (False, hv \<or> (\<exists>pt \<in> set pts. \<not> parent_pvr pt \<and> pt_status pt = 0),
                  PVRSRV_OK, b1, s1)"
      "waits b1 = waits b' @ map (pt_wait_entry s') (filter (pt_unsatisfied s') pts)"
      "length (updates b1) = length (updates b') + length (filter (pt_unsatisfied s') pts)"
      "take (length (updates b')) (updates b1) = updates b'"
      by auto
    moreover have "take (length (updates b)) (updates b1) = updates b"
    proof -
      have "take (length (updates b)) (updates b1)
              = take (length (updates b)) (take (length (updates b')) (updates b1))"
        using up by (simp add: min_def)
      also have "\<dots> = take (length (updates b)) (updates b')"
        using calculation \<open>take (length (updates b')) (updates b1) = updates b'\<close> by simp
      also have "\<dots> = updates b" using up by simp
      finally show ?thesis .
    qed
    moreover have "parent_pvr pt" using True by (simp add: pt_unsatisfied_def)
    ultimately show ?thesis using st True wa up fs ws by auto
  qed
qed

text \<open>
  C2. On a heap of the shape \<open>check_heap\<close> describes (every acquisition of a cleanup
  prim succeeding) and with room in the output arrays for one wait and one update per
  unsatisfied point: (1) the loop of the check-mode query over the points of the fence
  runs to the end with PVRSRV\_OK; the wait entries it appends are, in order, exactly
  the entries (fence prim address, that prim's \<open>next_value\<close>) of the unsatisfied
  points of this driver, and it appends as many update entries; points that are idle or
  already met add nothing; when the fence has no active foreign point this is also the
  result of the whole query. (2) An iteration on an idle or met point of the driver
  leaves buffers and state as they are. (3) An iteration on an unsatisfied point appends
  exactly its wait entry and one update entry, which is the point's cleanup prim at the
  \<open>next_value\<close> the iteration advanced it to; the point has a cleanup prim
  afterwards, acquired from the pool if it had none.
\<close>

theorem query_check_entries:
  assumes "check_heap s (ce_cleanup_alloc env) F pts" "buffers_within max_entries b"
      and "sync_fence_fdget fd s = Some fence" "pt_list fence = pts"
      and "unat (fence_num b) + length (filter (pt_unsatisfied s) pts) \<le> unat max_entries"
      and "unat (update_num b) + length (filter (pt_unsatisfied s) pts) \<le> unat max_entries"
  shows "(\<exists>hv b1 s1.
          check_pts (ce_cleanup_alloc env) 0 max_entries pts False b s
            = Some (False, hv, PVRSRV_OK, b1, s1)
        \<and> (hv \<longleftrightarrow> (\<exists>pt \<in> set pts. \<not> parent_pvr pt \<and> pt_status pt = 0))
        \<and> waits b1 = waits b @ map (pt_wait_entry s) (filter (pt_unsatisfied s) pts)
        \<and> length (updates b1)
            = length (updates b) + length (filter (pt_unsatisfied s) pts)
        \<and> take (length (updates b)) (updates b1) = updates b
        \<and> (\<not> hv \<longrightarrow> pvr_sync_query_sync_check env fd max_entries b s
                         = Some (PVRSRV_OK, b1, s1)))
     \<and> (pt \<in> set pts \<and> parent_pvr pt \<and> \<not> pt_unsatisfied s pt
        \<longrightarrow> check_pt e max_entries pt h c s = Some (False, h, PVRSRV_OK, c, s))
     \<and> (pt \<in> set pts \<and> pt_unsatisfied s pt \<and> buffers_within max_entries c
          \<and> unat (fence_num c) + 1 \<le> unat max_entries
          \<and> unat (update_num c) + 1 \<le> unat max_entries
        \<longrightarrow> (\<exists>c' s'. check_pt (ce_cleanup_alloc env j) max_entries pt h c s
                        = Some (False, h, PVRSRV_OK, c', s')
              \<and> waits c' = waits c @ [pt_wait_entry s pt]
              \<and> updates c' = updates c @ [pt_update_entry s' pt]
              \<and> snd (pt_update_entry s' pt) = pt_cleanup_target s pt
              \<and> (\<exists>k' cl. pt_kernel s' pt = Some k' \<and> cleanup_sync k' = Some cl
                     \<and> prims s' cl \<noteq> None)))"
proof (intro conjI impI)
  from check_pts_entries [OF assms(1,2,5,6), of 0 False]
  obtain b1 s1 where
    l: "check_pts (ce_cleanup_alloc env) 0 max_entries pts False b s
          = Some (False, \<exists>pt \<in> set pts. \<not> parent_pvr pt \<and> pt_status pt = 0,
                  PVRSRV_OK, b1, s1)"
    and r: "waits b1 = waits b @ map (pt_wait_entry s) (filter (pt_unsatisfied s) pts)"
      "length (updates b1) = length (updates b) + length (filter (pt_unsatisfied s) pts)"
      "take (length (updates b)) (updates b1) = updates b"
    by auto
  have q: "\<not> (\<exists>pt \<in> set pts. \<not> parent_pvr pt \<and> pt_status pt = 0)
        \<longrightarrow> pvr_sync_query_sync_check env fd max_entries b s = Some (PVRSRV_OK, b1, s1)"
    using l assms(3,4) by (simp add: pvr_sync_query_sync_check_def)
  show "\<exists>hv b1 s1.
          check_pts (ce_cleanup_alloc env) 0 max_entries pts False b s
            = Some (False, hv, PVRSRV_OK, b1, s1)
        \<and> (hv \<longleftrightarrow> (\<exists>pt \<in> set pts. \<not> parent_pvr pt \<and> pt_status pt = 0))
        \<and> waits b1 = waits b @ map (pt_wait_entry s) (filter (pt_unsatisfied s) pts)
        \<and> length (updates b1)
            = length (updates b) + length (filter (pt_unsatisfied s) pts)
        \<and> take (length (updates b)) (updates b1) = updates b
        \<and> (\<not> hv \<longrightarrow> pvr_sync_query_sync_check env fd max_entries b s
                         = Some (PVRSRV_OK, b1, s1))"
    using l r q by blast
next
  assume a: "pt \<in> set pts \<and> parent_pvr pt \<and> \<not> pt_unsatisfied s pt"
  then obtain pre post where sp: "pts = pre @ pt # post" by (auto simp: in_set_conv_decomp)
  have "check_heap s (ce_cleanup_alloc env) F (pt # post)"
    using assms(1) unfolding sp by (auto simp: check_heap_def)
  from check_pt_skip [OF this, of e max_entries h c] a
  show "check_pt e max_entries pt h c s = Some (False, h, PVRSRV_OK, c, s)" by simp
next
  assume a: "pt \<in> set pts \<and> pt_unsatisfied s pt \<and> buffers_within max_entries c
      \<and> unat (fence_num c) + 1 \<le> unat max_entries
      \<and> unat (update_num c) + 1 \<le> unat max_entries"
  then obtain pre post where sp: "pts = pre @ pt # post" by (auto simp: in_set_conv_decomp)
  have hp: "check_heap s (ce_cleanup_alloc env) F (pt # post)"
    using assms(1) unfolding sp by (auto simp: check_heap_def)
  from a have u: "pt_unsatisfied s pt" and w: "buffers_within max_entries c"
    and r: "unat (fence_num c) + 1 \<le> unat max_entries"
      "unat (update_num c) + 1 \<le> unat max_entries" by simp_all
  from check_pt_unsat_step [OF hp u w r, of j h]
  show "\<exists>c' s'. check_pt (ce_cleanup_alloc env j) max_entries pt h c s
                        = Some (False, h, PVRSRV_OK, c', s')
              \<and> waits c' = waits c @ [pt_wait_entry s pt]
              \<and> updates c' = updates c @ [pt_update_entry s' pt]
              \<and> snd (pt_update_entry s' pt) = pt_cleanup_target s pt
              \<and> (\<exists>k' cl. pt_kernel s' pt = Some k' \<and> cleanup_sync k' = Some cl
                     \<and> prims s' cl \<noteq> None)"
    by blast
qed

lemma ex_merged_facts:
  "check_heap ex_merged (ce_cleanup_alloc ex_check_env) {11, 13} [ex_done_pt, ex_pt]"
  "sync_fence_fdget 9 ex_merged
     = Some \<lparr>fence_name = ''merged'', pt_list = [ex_done_pt, ex_pt]\<rparr>"
  "\<not> pt_unsatisfied ex_merged ex_done_pt" "pt_unsatisfied ex_merged ex_pt"
  "pt_wait_entry ex_merged ex_pt = (0x2000, 1)"
  "pt_cleanup_target ex_merged ex_pt = 1"
  by (simp_all add: check_heap_def pt_kernel_def deref_sync_data_def pt_unsatisfied_def
      pt_wait_entry_def pt_cleanup_target_def sync_fence_fdget_def
      ex_check_env_def ex_done_pt_def ex_merged_def ex_live_def ex_queried_def ex_defs)

theorem query_check_entries_witness:
  "\<exists>b1 s1. pvr_sync_query_sync_check ex_check_env 9 4 (empty_buffers 4) ex_merged
              = Some (PVRSRV_OK, b1, s1)
     \<and> waits b1 = [(0x2000, 1)]
     \<and> length (updates b1) = 1
     \<and> check_pt (ce_cleanup_alloc ex_check_env 0) 4 ex_done_pt False (empty_buffers 4) ex_merged
         = Some (False, False, PVRSRV_OK, empty_buffers 4, ex_merged)
     \<and> (\<exists>c' s'. check_pt (ce_cleanup_alloc ex_check_env 1) 4 ex_pt False (empty_buffers 4) ex_merged
                   = Some (False, False, PVRSRV_OK, c', s')
          \<and> waits c' = [(0x2000, 1)]
          \<and> updates c' = [pt_update_entry s' ex_pt]
          \<and> snd (pt_update_entry s' ex_pt) = 1)"
proof -
  have w: "buffers_within 4 (empty_buffers 4)"
    by (simp add: buffers_within_def empty_buffers_def)
  have z: "waits (empty_buffers 4) = []" "updates (empty_buffers 4) = []"
    by (simp_all add: waits_def updates_def empty_buffers_def)
  have f: "filter (pt_unsatisfied ex_merged) [ex_done_pt, ex_pt] = [ex_pt]"
    using ex_merged_facts(3,4) by simp
  have n: "unat (fence_num (empty_buffers 4))
             + length (filter (pt_unsatisfied ex_merged) [ex_done_pt, ex_pt]) \<le> unat (4::u32)"
    "unat (update_num (empty_buffers 4))
             + length (filter (pt_unsatisfied ex_merged) [ex_done_pt, ex_pt]) \<le> unat (4::u32)"
    unfolding f by (simp_all add: empty_buffers_def)
  have p: "pt_list \<lparr>fence_name = ''merged'', pt_list = [ex_done_pt, ex_pt]\<rparr>
             = [ex_done_pt, ex_pt]" by simp
  note t = query_check_entries [OF ex_merged_facts(1) w ex_merged_facts(2) p n]
  have nf: "\<not> (\<exists>pt \<in> set [ex_done_pt, ex_pt]. \<not> parent_pvr pt \<and> pt_status pt = 0)"
    by (simp add: ex_done_pt_def ex_pt_def)
  have 1: "\<exists>b1 s1. pvr_sync_query_sync_check ex_check_env 9 4 (empty_buffers 4) ex_merged
              = Some (PVRSRV_OK, b1, s1)
     \<and> waits b1 = [(0x2000, 1)] \<and> length (updates b1) = 1"
    using t [THEN conjunct1] nf ex_merged_facts(5) unfolding f z by auto
  have 2: "check_pt (ce_cleanup_alloc ex_check_env 0) 4 ex_done_pt False (empty_buffers 4) ex_merged
         = Some (False, False, PVRSRV_OK, empty_buffers 4, ex_merged)"
    using t [THEN conjunct2, THEN conjunct1, rule_format,
        where pt = ex_done_pt and e = "ce_cleanup_alloc ex_check_env 0" and h = False
          and c = "empty_buffers 4"]
      ex_merged_facts(3)
    by (simp add: ex_done_pt_def)
  have 3: "\<exists>c' s'. check_pt (ce_cleanup_alloc ex_check_env 1) 4 ex_pt False (empty_buffers 4) ex_merged
                   = Some (False, False, PVRSRV_OK, c', s')
          \<and> waits c' = [(0x2000, 1)]
          \<and> updates c' = [pt_update_entry s' ex_pt]
          \<and> snd (pt_update_entry s' ex_pt) = 1"
    using t [THEN conjunct2, THEN conjunct2, rule_format,
        where pt = ex_pt and j = 1 and h = False and c = "empty_buffers 4"]
      ex_merged_facts(4,5,6) w z
    by (auto simp: empty_buffers_def)
  show ?thesis using 1 2 3 by blast
qed

subsection \<open>The pool\<close>

lemma pool_run_append:
  "pool_run (xs @ ys) s = (case pool_run xs s of None \<Rightarrow> None | Some s1 \<Rightarrow> pool_run ys s1)"
proof (induction xs arbitrary: s)
  case Nil
  then show ?case by simp
next
  case (Cons x xs)
  then show ?case by (cases x) (auto split: option.splits)
qed

lemma pool_fresh_append:
  "pool_fresh (xs @ ys) s
     = (pool_fresh xs s \<and> (case pool_run xs s of None \<Rightarrow> True | Some s1 \<Rightarrow> pool_fresh ys s1))"
proof (induction xs arbitrary: s)
  case Nil
  then show ?case by simp
next
  case (Cons x xs)
  then show ?case by (cases x) (auto split: option.splits)
qed

lemma wrap_cycle_first:
  "pool_run wrap_cycle wrap_first = Some (wrap_cycled 0)"
  "pool_fresh wrap_cycle wrap_first"
  by (simp_all add: wrap_cycle_def wrap_first_def wrap_cycled_def init_state_def
      sync_pool_get_def sync_pool_put_def set_sync_value_def SYNC_MAX_POOL_SIZE_def Let_def
      fun_upd_twist)

lemma wrap_cycle_next:
  "pool_run wrap_cycle (wrap_cycled n) = Some (wrap_cycled (Suc n))"
  "pool_fresh wrap_cycle (wrap_cycled n)"
  by (simp_all add: wrap_cycle_def wrap_cycled_def init_state_def
      sync_pool_get_def sync_pool_put_def set_sync_value_def SYNC_MAX_POOL_SIZE_def Let_def
      fun_upd_twist add.assoc)

lemma wrap_cycles:
  "pool_run (concat (replicate (Suc n) wrap_cycle)) wrap_first = Some (wrap_cycled n)
   \<and> pool_fresh (concat (replicate (Suc n) wrap_cycle)) wrap_first"
proof (induction n)
  case 0
  then show ?case using wrap_cycle_first by simp
next
  case (Suc n)
  have e: "concat (replicate (Suc (Suc n)) wrap_cycle)
          = concat (replicate (Suc n) wrap_cycle) @ wrap_cycle"
    by (metis concat.simps(2) concat_append concat.simps(1) append_Nil2
        replicate_Suc replicate_append_same)
  from Suc have r: "pool_run (concat (replicate (Suc n) wrap_cycle)) wrap_first
                      = Some (wrap_cycled n)"
    and f: "pool_fresh (concat (replicate (Suc n) wrap_cycle)) wrap_first" by blast+
  show ?case
    unfolding e
    by (simp only: pool_run_append pool_fresh_append r f option.case wrap_cycle_next simp_thms)
qed

lemma wrap_cycled_last: "wrap_cycled (2 ^ 32 - 2) = init_state
     \<lparr>prims := [10 \<mapsto> \<lparr>lin_value = 0, next_value = 0, prim_id = 1, vaddr = 0x1000,
                         prim_type = SYNC_TL_TYPE, prim_class = ''a''\<rparr>,
                 11 \<mapsto> \<lparr>lin_value = 0xffffffff, next_value = 0,
                         prim_id = 0, vaddr = 0x2000,
                         prim_type = SYNC_PT_FENCE_TYPE, prim_class = ''b''\<rparr>],
      sync_pool_free_list := [11], sync_pool_active_list := [10],
      sync_pool_size := 1, sync_pool_created := 2, sync_pool_reused := 0xfffffffe,
      sync_id := 0\<rparr>"
proof -
  have "(word_of_nat (2 ^ 32 - 2) :: u32) = 0xfffffffe" by simp
  moreover have "(2 + 0xfffffffe :: u32) = 0" by simp
  ultimately show ?thesis by (simp only: wrap_cycled_def)
qed

lemma wrap_ops_run:
  "pool_run wrap_ops init_state = Some wrap_final" "pool_fresh wrap_ops init_state"
proof -
  have n: "(2::nat) ^ 32 - 1 = Suc (2 ^ 32 - 2)" by simp
  have g0: "sync_pool_get (Kmalloc_ok 10 PVRSRV_OK 0x1000) ''a'' SYNC_TL_TYPE init_state
              = Some (PVRSRV_OK, Some 10, wrap_first)"
    by (simp add: sync_pool_get_def Let_def init_state_def wrap_first_def)
  have g1: "sync_pool_get (Kmalloc_ok 11 PVRSRV_OK 0x2000) ''b'' SYNC_PT_FENCE_TYPE
              (wrap_cycled (2 ^ 32 - 2)) = Some (PVRSRV_OK, Some 11, wrap_final)"
    unfolding wrap_cycled_last
    by (simp add: sync_pool_get_def Let_def init_state_def wrap_final_def fun_upd_twist)
  have fr: "sync_pool_free_list (wrap_cycled (2 ^ 32 - 2)) \<noteq> []"
    by (simp add: wrap_cycled_def)
  note c = wrap_cycles [of "2 ^ 32 - 2"]
  show "pool_run wrap_ops init_state = Some wrap_final"
    unfolding wrap_ops_def n
    using g0 g1 c by (simp only: pool_run.simps pool_run_append option.case prod.case)
  show "pool_fresh wrap_ops init_state"
    unfolding wrap_ops_def n
    using g0 g1 c fr
    by (simp only: pool_fresh.simps pool_fresh_append pool_run.simps option.case prod.case
        prim_alloc.case simp_thms)
       (simp add: init_state_def)
qed

text \<open>
  C8, as the claim states it, fails for long sequences: the id is a 32-bit counter, so
  after \<open>2^32\<close> further acquisitions it hands out again the id of a prim that has
  been active all the time. In the run \<open>wrap_ops\<close> the prims at 10 and 11 are both
  active at the end and both carry id 1.
\<close>

theorem pool_id_wraps_counterexample:
  "pool_run wrap_ops init_state = Some wrap_final
   \<and> pool_fresh wrap_ops init_state
   \<and> sync_pool_active_list wrap_final = [10, 11]
   \<and> active_ids wrap_final = [1, 1]"
proof -
  have "sync_pool_active_list wrap_final = [10, 11]" "active_ids wrap_final = [1, 1]"
    by (simp_all add: active_ids_def prim_id_of_def wrap_final_def init_state_def)
  then show ?thesis using wrap_ops_run by simp
qed

lemma distinct_map_remove1:
  assumes "distinct (map f xs)"
  shows "distinct (map f (remove1 x xs))"
proof -
  from assms have d: "distinct xs" by (simp add: distinct_map)
  have "remove1 x xs = filter (\<lambda>y. y \<noteq> x) xs"
    using d by (simp add: distinct_remove1_removeAll removeAll_filter_not_eq) metis
  then show ?thesis using assms by (simp add: distinct_map_filter)
qed

lemma sync_pool_put_inv:
  assumes "pool_inv s" "sync_pool_put p s = Some s'"
  shows "pool_inv s'" "sync_id s' = sync_id s"
proof -
  from assms(2) obtain q where q: "prims s p = Some q"
    by (auto simp: sync_pool_put_def set_sync_value_def split: if_splits option.splits)
  from assms(1) have d: "distinct (sync_pool_free_list s)" "distinct (sync_pool_active_list s)"
    "set (sync_pool_free_list s) \<inter> set (sync_pool_active_list s) = {}"
    and ex: "\<forall>x \<in> set (sync_pool_free_list s) \<union> set (sync_pool_active_list s). prims s x \<noteq> None"
    and ids: "\<forall>x \<in> set (sync_pool_active_list s). unat (prim_id_of s x) \<le> unat (sync_id s)"
    and di: "distinct (map (prim_id_of s) (sync_pool_active_list s))"
    by (auto simp: pool_inv_def list_all_iff active_ids_def)
  show "sync_id s' = sync_id s"
    using assms(2) q
    by (auto simp: sync_pool_put_def set_sync_value_def split: if_splits)
  show "pool_inv s'"
  proof (cases "sync_pool_size s < SYNC_MAX_POOL_SIZE")
    case True
    then have s': "s' = s\<lparr>prims := (prims s)(p \<mapsto> q\<lparr>lin_value := 0xffffffff\<rparr>),
                       sync_pool_free_list := p # remove1 p (sync_pool_free_list s),
                       sync_pool_active_list := remove1 p (sync_pool_active_list s),
                       sync_pool_size := sync_pool_size s + 1\<rparr>"
      using assms(2) q by (simp add: sync_pool_put_def set_sync_value_def)
    have same: "prim_id_of s' = prim_id_of s"
      using q by (auto simp: s' prim_id_of_def)
    have ex': "\<And>x. prims s x \<noteq> None \<Longrightarrow> prims s' x \<noteq> None"
      by (simp add: s')
    have fl: "sync_pool_free_list s' = p # remove1 p (sync_pool_free_list s)"
      "sync_pool_active_list s' = remove1 p (sync_pool_active_list s)"
      "sync_id s' = sync_id s" "prims s' p \<noteq> None"
      by (simp_all add: s')
    have "distinct (map (prim_id_of s) (remove1 p (sync_pool_active_list s)))"
      using distinct_map_remove1 [OF di] .
    then show ?thesis
      using d ex ids ex'
      by (auto simp: pool_inv_def list_all_iff active_ids_def fl same
          dest: notin_set_remove1)
  next
    case False
    then have s': "s' = s\<lparr>prims := (prims s)(p := None),
                       sync_pool_free_list := remove1 p (sync_pool_free_list s),
                       sync_pool_active_list := remove1 p (sync_pool_active_list s)\<rparr>"
      using assms(2) q by (auto simp: sync_pool_put_def set_sync_value_def)
    have same: "\<And>x. x \<noteq> p \<Longrightarrow> prim_id_of s' x = prim_id_of s x"
      by (simp add: s' prim_id_of_def)
    have ex': "\<And>x. x \<noteq> p \<Longrightarrow> prims s x \<noteq> None \<Longrightarrow> prims s' x \<noteq> None"
      by (simp add: s')
    have fl: "sync_pool_free_list s' = remove1 p (sync_pool_free_list s)"
      "sync_pool_active_list s' = remove1 p (sync_pool_active_list s)"
      "sync_id s' = sync_id s"
      by (simp_all add: s')
    have np: "p \<notin> set (remove1 p (sync_pool_active_list s))"
      "p \<notin> set (remove1 p (sync_pool_free_list s))"
      using d by simp_all
    have "x \<noteq> p" if "x \<in> set (remove1 p (sync_pool_active_list s))" for x
      using that np(1) by auto
    then have "\<forall>x \<in> set (remove1 p (sync_pool_active_list s)). prim_id_of s' x = prim_id_of s x"
      by (simp add: same)
    then have m: "map (prim_id_of s') (remove1 p (sync_pool_active_list s))
            = map (prim_id_of s) (remove1 p (sync_pool_active_list s))"
      by simp
    have dm: "distinct (map (prim_id_of s) (remove1 p (sync_pool_active_list s)))"
      using distinct_map_remove1 [OF di] .
    have a1: "distinct (sync_pool_free_list s' @ sync_pool_active_list s')"
      using d by (auto simp: fl dest: notin_set_remove1)
    have a2: "\<forall>x \<in> set (sync_pool_free_list s') \<union> set (sync_pool_active_list s').
                prims s' x \<noteq> None"
    proof
      fix x assume x: "x \<in> set (sync_pool_free_list s') \<union> set (sync_pool_active_list s')"
      then have "x \<noteq> p" using np by (auto simp: fl)
      moreover have "x \<in> set (sync_pool_free_list s) \<union> set (sync_pool_active_list s)"
        using x set_remove1_subset [of p "sync_pool_free_list s"]
          set_remove1_subset [of p "sync_pool_active_list s"] by (auto simp: fl)
      ultimately show "prims s' x \<noteq> None" using ex ex' by blast
    qed
    have a3: "\<forall>x \<in> set (sync_pool_active_list s').
                unat (prim_id_of s' x) \<le> unat (sync_id s')"
    proof
      fix x assume x: "x \<in> set (sync_pool_active_list s')"
      then have "x \<noteq> p" using np by (auto simp: fl)
      moreover have "x \<in> set (sync_pool_active_list s)"
        using x set_remove1_subset [of p "sync_pool_active_list s"] by (auto simp: fl)
      ultimately show "unat (prim_id_of s' x) \<le> unat (sync_id s')"
        using ids same by (simp add: fl)
    qed
    have a4: "distinct (map (prim_id_of s') (sync_pool_active_list s'))"
      unfolding fl(2) m by (rule dm)
    show ?thesis
      using a1 a2 a3 a4 by (simp add: pool_inv_def list_all_iff active_ids_def)
  qed
qed

lemma sync_pool_get_inv:
  assumes "pool_inv s" "sync_pool_get env cn ty s = Some (e, r, s')"
      and "\<forall>a e0 fw. env = Kmalloc_ok a e0 fw \<longrightarrow> sync_pool_free_list s \<noteq> [] \<or> prims s a = None"
      and "unat (sync_id s) + 1 < 2 ^ 32"
  shows "pool_inv s'" "unat (sync_id s') \<le> unat (sync_id s) + 1"
proof -
  from assms(1) have d: "distinct (sync_pool_free_list s)" "distinct (sync_pool_active_list s)"
    "set (sync_pool_free_list s) \<inter> set (sync_pool_active_list s) = {}"
    and ex: "\<forall>x \<in> set (sync_pool_free_list s) \<union> set (sync_pool_active_list s). prims s x \<noteq> None"
    and ids: "\<forall>x \<in> set (sync_pool_active_list s). unat (prim_id_of s x) \<le> unat (sync_id s)"
    and di: "distinct (map (prim_id_of s) (sync_pool_active_list s))"
    by (auto simp: pool_inv_def list_all_iff active_ids_def)
  have un: "unat (sync_id s + 1) = unat (sync_id s) + 1"
    using assms(4) by (simp add: unat_word_ariths)
  show "unat (sync_id s') \<le> unat (sync_id s) + 1"
  proof (cases "e = PVRSRV_OK")
    case True
    with sync_pool_get_result(6) [OF assms(2)] un show ?thesis by auto
  next
    case False
    with sync_pool_get_result(5) [OF assms(2)] show ?thesis by simp
  qed
  show "pool_inv s'"
  proof (cases "e = PVRSRV_OK")
    case False
    with sync_pool_get_result(5) [OF assms(2)] assms(1) show ?thesis by simp
  next
    case True
    then obtain p q where
      r: "r = Some p" and q: "prims s' p = Some q" "prim_id q = sync_id s + 1"
      and oth: "\<forall>a. a \<noteq> p \<longrightarrow> prims s' a = prims s a" and si: "sync_id s' = sync_id s + 1"
      using sync_pool_get_result(6) [OF assms(2)] by blast
    have lists: "(sync_pool_free_list s = [] \<and> prims s p = None
                    \<and> sync_pool_free_list s' = []
                    \<and> sync_pool_active_list s' = sync_pool_active_list s @ [p])
               \<or> (\<exists>rest. sync_pool_free_list s = p # rest
                    \<and> sync_pool_free_list s' = rest
                    \<and> sync_pool_active_list s' = sync_pool_active_list s @ [p])"
      using assms(2,3) True r
      by (auto simp: sync_pool_get_def Let_def
          split: list.splits prim_alloc.splits option.splits if_splits)
    have pn: "p \<notin> set (sync_pool_active_list s)"
    proof
      assume a: "p \<in> set (sync_pool_active_list s)"
      from lists show False
      proof (elim disjE exE conjE)
        assume "prims s p = None"
        with ex a show False by blast
      next
        fix rest assume "sync_pool_free_list s = p # rest"
        with d(3) a show False by auto
      qed
    qed
    have same: "\<And>x. x \<noteq> p \<Longrightarrow> prim_id_of s' x = prim_id_of s x"
      using oth by (simp add: prim_id_of_def)
    have newid: "prim_id_of s' p = sync_id s + 1" using q by (simp add: prim_id_of_def)
    have "x \<noteq> p" if "x \<in> set (sync_pool_active_list s)" for x
      using that pn by auto
    then have "\<forall>x \<in> set (sync_pool_active_list s). prim_id_of s' x = prim_id_of s x"
      by (simp add: same)
    then have m: "map (prim_id_of s') (sync_pool_active_list s)
               = map (prim_id_of s) (sync_pool_active_list s)"
      by simp
    have fresh: "sync_id s + 1 \<notin> set (map (prim_id_of s) (sync_pool_active_list s))"
    proof
      assume "sync_id s + 1 \<in> set (map (prim_id_of s) (sync_pool_active_list s))"
      then obtain x where "x \<in> set (sync_pool_active_list s)" "prim_id_of s x = sync_id s + 1"
        by auto
      with ids un show False by force
    qed
    have exs: "\<forall>x \<in> set (sync_pool_free_list s') \<union> set (sync_pool_active_list s').
                 prims s' x \<noteq> None"
    proof
      fix x assume x: "x \<in> set (sync_pool_free_list s') \<union> set (sync_pool_active_list s')"
      show "prims s' x \<noteq> None"
      proof (cases "x = p")
        case True
        then show ?thesis using q by simp
      next
        case False
        then have "x \<in> set (sync_pool_free_list s) \<union> set (sync_pool_active_list s)"
          using x lists by auto
        then show ?thesis using ex oth False by simp
      qed
    qed
    have idb: "\<forall>x \<in> set (sync_pool_active_list s').
                 unat (prim_id_of s' x) \<le> unat (sync_id s')"
    proof
      fix x assume x: "x \<in> set (sync_pool_active_list s')"
      show "unat (prim_id_of s' x) \<le> unat (sync_id s')"
      proof (cases "x = p")
        case True
        then show ?thesis using newid si by simp
      next
        case False
        then have "x \<in> set (sync_pool_active_list s)" using x lists by auto
        then show ?thesis using ids same [OF False] si un by force
      qed
    qed
    have dl: "distinct (sync_pool_free_list s' @ sync_pool_active_list s')"
      using lists d pn by auto
    have al: "sync_pool_active_list s' = sync_pool_active_list s @ [p]"
      using lists by auto
    have e: "map (prim_id_of s') (sync_pool_active_list s @ [p])
               = map (prim_id_of s) (sync_pool_active_list s) @ [sync_id s + 1]"
      unfolding map_append m by (simp add: newid)
    have dids: "distinct (map (prim_id_of s') (sync_pool_active_list s'))"
      unfolding al e using di fresh by simp
    show ?thesis
      using exs idb dl dids by (simp add: pool_inv_def list_all_iff active_ids_def)
  qed
qed

lemma pool_inv_init: "pool_inv init_state"
  by (simp add: pool_inv_def init_state_def active_ids_def)

lemma pool_run_inv:
  "pool_inv s \<Longrightarrow> pool_fresh ops s \<Longrightarrow> pool_run ops s = Some s'
   \<Longrightarrow> unat (sync_id s) + length (filter is_get ops) < 2 ^ 32
   \<Longrightarrow> pool_inv s' \<and> unat (sync_id s') \<le> unat (sync_id s) + length (filter is_get ops)"
proof (induction ops arbitrary: s)
  case Nil
  then show ?case by simp
next
  case (Cons x ops)
  show ?case
  proof (cases x)
    case (Pool_get env cn ty)
    from Cons.prems(3) Pool_get obtain e r s1 where
      g: "sync_pool_get env cn ty s = Some (e, r, s1)" and run: "pool_run ops s1 = Some s'"
      by (auto split: option.splits)
    have fr: "\<forall>a e0 fw. env = Kmalloc_ok a e0 fw
                \<longrightarrow> sync_pool_free_list s \<noteq> [] \<or> prims s a = None"
      using Cons.prems(2) Pool_get by auto
    have b1: "unat (sync_id s) + 1 < 2 ^ 32" using Cons.prems(4) Pool_get by simp
    note i1 = sync_pool_get_inv [OF Cons.prems(1) g fr b1]
    have f1: "pool_fresh ops s1" using Cons.prems(2) Pool_get g by simp
    have b2: "unat (sync_id s1) + length (filter is_get ops) < 2 ^ 32"
      using Cons.prems(4) Pool_get i1(2) by simp
    from Cons.IH [OF i1(1) f1 run b2] i1(2) Pool_get show ?thesis by simp
  next
    case (Pool_put p)
    from Cons.prems(3) Pool_put obtain s1 where
      g: "sync_pool_put p s = Some s1" and run: "pool_run ops s1 = Some s'"
      by (auto split: option.splits)
    note i1 = sync_pool_put_inv [OF Cons.prems(1) g]
    have f1: "pool_fresh ops s1" using Cons.prems(2) Pool_put g by simp
    have b2: "unat (sync_id s1) + length (filter is_get ops) < 2 ^ 32"
      using Cons.prems(4) Pool_put i1(2) by simp
    from Cons.IH [OF i1(1) f1 run b2] i1(2) Pool_put show ?thesis by simp
  qed
qed

text \<open>
  C8, amended. Start from the state pvr\_sync\_init leaves and run any sequence of pool
  acquisitions and releases with fewer than \<open>2^32\<close> acquisitions (kmalloc never
  returning the address of a live prim). Then (1) the active prims carry pairwise
  different ids; (2) an acquisition that succeeds next returns a prim with current value
  0 and \<open>next_value\<close> 0, the requested type, the first 32 characters of the requested
  class name, and the id counter's next value as its id, which, while the counter has
  not wrapped, no active prim carries; (3) when the free list is not empty the
  acquisition succeeds by taking the prim at the head of the free list and creates
  nothing; (4) a release into a pool that is not full links the prim at the head of the
  free list, so the prim released last is the one acquired next.
\<close>

theorem pool_acquire_release:
  assumes "pool_run ops init_state = Some s" "pool_fresh ops init_state"
      and "length (filter is_get ops) < 2 ^ 32"
  shows "distinct (active_ids s)
     \<and> (sync_pool_get env cn ty s = Some (PVRSRV_OK, r, s')
        \<longrightarrow> (\<exists>p q. r = Some p \<and> prims s' p = Some q
               \<and> lin_value q = 0 \<and> next_value q = 0
               \<and> prim_type q = ty \<and> prim_class q = take 32 cn
               \<and> prim_id q = sync_id s + 1
               \<and> (length (filter is_get ops) + 1 < 2 ^ 32
                    \<longrightarrow> prim_id q \<notin> set (active_ids s))))
     \<and> (sync_pool_free_list s = p0 # rest
        \<longrightarrow> (\<exists>s1. sync_pool_get env cn ty s = Some (PVRSRV_OK, Some p0, s1)
               \<and> sync_pool_free_list s1 = rest
               \<and> sync_pool_created s1 = sync_pool_created s))
     \<and> (sync_pool_size s < SYNC_MAX_POOL_SIZE \<and> sync_pool_put p1 s = Some s2
        \<longrightarrow> sync_pool_free_list s2 = p1 # remove1 p1 (sync_pool_free_list s)
            \<and> (\<exists>s3. sync_pool_get env cn ty s2 = Some (PVRSRV_OK, Some p1, s3)))"
proof -
  have b0: "unat (sync_id init_state) + length (filter is_get ops) < 2 ^ 32"
    using assms(3) by (simp add: init_state_def)
  from pool_run_inv [OF pool_inv_init assms(2) assms(1) b0]
  have inv: "pool_inv s" and cnt: "unat (sync_id s) \<le> length (filter is_get ops)"
    by (simp_all add: init_state_def)
  from inv have ex: "\<forall>x \<in> set (sync_pool_free_list s). prims s x \<noteq> None"
    and ids: "\<forall>x \<in> set (sync_pool_active_list s). unat (prim_id_of s x) \<le> unat (sync_id s)"
    by (auto simp: pool_inv_def list_all_iff)
  show ?thesis
  proof (intro conjI impI)
    show "distinct (active_ids s)" using inv by (simp add: pool_inv_def)
  next
    assume g: "sync_pool_get env cn ty s = Some (PVRSRV_OK, r, s')"
    from sync_pool_get_result(6) [OF g] obtain p q where
      pq: "r = Some p" "prims s' p = Some q" "lin_value q = 0" "next_value q = 0"
        "prim_type q = ty" "prim_class q = take 32 cn" "prim_id q = sync_id s + 1"
      by auto
    have "prim_id q \<notin> set (active_ids s)" if "length (filter is_get ops) + 1 < 2 ^ 32"
    proof
      assume "prim_id q \<in> set (active_ids s)"
      then obtain x where x: "x \<in> set (sync_pool_active_list s)"
        "prim_id_of s x = sync_id s + 1"
        using pq(7) by (auto simp: active_ids_def)
      have "unat (sync_id s + 1) = unat (sync_id s) + 1"
        using that cnt by (simp add: unat_word_ariths)
      with ids x show False by force
    qed
    with pq show "\<exists>p q. r = Some p \<and> prims s' p = Some q
               \<and> lin_value q = 0 \<and> next_value q = 0
               \<and> prim_type q = ty \<and> prim_class q = take 32 cn
               \<and> prim_id q = sync_id s + 1
               \<and> (length (filter is_get ops) + 1 < 2 ^ 32
                    \<longrightarrow> prim_id q \<notin> set (active_ids s))"
      by blast
  next
    assume f: "sync_pool_free_list s = p0 # rest"
    with ex obtain q0 where "prims s p0 = Some q0" by auto
    with f show "\<exists>s1. sync_pool_get env cn ty s = Some (PVRSRV_OK, Some p0, s1)
               \<and> sync_pool_free_list s1 = rest
               \<and> sync_pool_created s1 = sync_pool_created s"
      by (simp add: sync_pool_get_def Let_def)
  next
    assume p: "sync_pool_size s < SYNC_MAX_POOL_SIZE \<and> sync_pool_put p1 s = Some s2"
    then obtain q1 where q1: "prims s p1 = Some q1"
      by (auto simp: sync_pool_put_def set_sync_value_def split: option.splits)
    with p have s2: "sync_pool_free_list s2 = p1 # remove1 p1 (sync_pool_free_list s)"
      "prims s2 p1 \<noteq> None"
      by (auto simp: sync_pool_put_def set_sync_value_def)
    then show "sync_pool_free_list s2 = p1 # remove1 p1 (sync_pool_free_list s)" by simp
    from s2 show "\<exists>s3. sync_pool_get env cn ty s2 = Some (PVRSRV_OK, Some p1, s3)"
      by (auto simp: sync_pool_get_def Let_def)
  qed
qed

theorem pool_acquire_release_witness:
  "pool_run (Pool_get (Kmalloc_ok 10 PVRSRV_OK 0x1000) ''a'' SYNC_TL_TYPE # wrap_cycle)
       init_state = Some (wrap_cycled 0)
   \<and> distinct (active_ids (wrap_cycled 0))
   \<and> (\<exists>s1. sync_pool_get Kmalloc_failed ''c'' SYNC_PT_CLEANUP_TYPE (wrap_cycled 0)
              = Some (PVRSRV_OK, Some 11, s1)
          \<and> sync_pool_free_list s1 = []
          \<and> sync_pool_created s1 = 2
          \<and> (\<exists>q. prims s1 11 = Some q \<and> lin_value q = 0 \<and> next_value q = 0
                 \<and> prim_type q = SYNC_PT_CLEANUP_TYPE \<and> prim_class q = ''c''
                 \<and> prim_id q = 3 \<and> prim_id q \<notin> set (active_ids (wrap_cycled 0))))
   \<and> (\<exists>s2. sync_pool_put 10 (wrap_cycled 0) = Some s2
          \<and> sync_pool_free_list s2 = [10, 11]
          \<and> (\<exists>s3. sync_pool_get Kmalloc_failed ''c'' SYNC_PT_CLEANUP_TYPE s2
                     = Some (PVRSRV_OK, Some 10, s3)))"
proof -
  let ?ops = "Pool_get (Kmalloc_ok 10 PVRSRV_OK 0x1000) ''a'' SYNC_TL_TYPE # wrap_cycle"
  have g0: "sync_pool_get (Kmalloc_ok 10 PVRSRV_OK 0x1000) ''a'' SYNC_TL_TYPE init_state
              = Some (PVRSRV_OK, Some 10, wrap_first)"
    by (simp add: sync_pool_get_def Let_def init_state_def wrap_first_def)
  have run: "pool_run ?ops init_state = Some (wrap_cycled 0)"
    using g0 wrap_cycle_first(1) by simp
  have fresh: "pool_fresh ?ops init_state"
    using g0 wrap_cycle_first(2) by (simp add: init_state_def)
  have len: "length (filter is_get ?ops) < 2 ^ 32" "length (filter is_get ?ops) + 1 < 2 ^ 32"
    by (simp_all add: wrap_cycle_def)
  have fl: "sync_pool_free_list (wrap_cycled 0) = 11 # []"
    "sync_pool_created (wrap_cycled 0) = 2" "sync_id (wrap_cycled 0) = 2"
    "sync_pool_size (wrap_cycled 0) < SYNC_MAX_POOL_SIZE"
    by (simp_all add: wrap_cycled_def init_state_def SYNC_MAX_POOL_SIZE_def)
  note t = pool_acquire_release [OF run fresh len(1)]
  have 1: "distinct (active_ids (wrap_cycled 0))" using t [THEN conjunct1] .
  from t [THEN conjunct2, THEN conjunct2, THEN conjunct1, rule_format, OF fl(1),
      where env = Kmalloc_failed and cn = "''c''" and ty = SYNC_PT_CLEANUP_TYPE]
  obtain s1 where
    s1: "sync_pool_get Kmalloc_failed ''c'' SYNC_PT_CLEANUP_TYPE (wrap_cycled 0)
           = Some (PVRSRV_OK, Some 11, s1)"
      "sync_pool_free_list s1 = []" "sync_pool_created s1 = 2"
    using fl(2) by auto
  from t [THEN conjunct2, THEN conjunct1, rule_format, OF s1(1)] len(2) fl(3)
  have 2: "\<exists>q. prims s1 11 = Some q \<and> lin_value q = 0 \<and> next_value q = 0
                 \<and> prim_type q = SYNC_PT_CLEANUP_TYPE \<and> prim_class q = ''c''
                 \<and> prim_id q = 3 \<and> prim_id q \<notin> set (active_ids (wrap_cycled 0))"
    by auto
  have pu: "\<exists>s2. sync_pool_put 10 (wrap_cycled 0) = Some s2"
    by (simp add: sync_pool_put_def set_sync_value_def wrap_cycled_def init_state_def
        SYNC_MAX_POOL_SIZE_def)
  then obtain s2 where s2: "sync_pool_put 10 (wrap_cycled 0) = Some s2" by blast
  from t [THEN conjunct2, THEN conjunct2, THEN conjunct2, rule_format,
      where ?p1.0 = 10 and ?s2.0 = s2 and env = Kmalloc_failed and cn = "''c''"
        and ty = SYNC_PT_CLEANUP_TYPE] fl(1,4) s2
  have 3: "sync_pool_free_list s2 = [10, 11]
          \<and> (\<exists>s3. sync_pool_get Kmalloc_failed ''c'' SYNC_PT_CLEANUP_TYPE s2
                     = Some (PVRSRV_OK, Some 10, s3))"
    by simp
  show ?thesis using run 1 s1 2 s2 3 by blast
qed

subsection \<open>The timeline counter\<close>

lemma ex_released_run: "pvr_sync_alloc_release 5 ex_allocated = Some (0, ex_released)"
  by (simp add: pvr_sync_alloc_release_def pvr_sync_free_sync_data_def
      pvr_sync_defer_free_def Let_def fun_upd_twist ex_released_def ex_defs)

text \<open>
  C5, as the claim states it, fails: releasing an unused handle rolls the counter back.
  After open, one allocation that replies "not idle" (the counter goes from 0 to 1) and
  the release of its handle, the counter is 0 again: it has decreased, and it is not the
  number of non-idle allocations made since the timeline was created.
\<close>

theorem timeline_next_value_rollback_counterexample:
  "pvr_sync_open ex_open_env init_state = Some (0, Some 30, ex_opened)
   \<and> pvr_sync_ioctl_alloc_fence ex_alloc_env 30 ex_opened
       = Some (0, Some (False, 5), ex_allocated)
   \<and> pvr_sync_alloc_release 5 ex_allocated = Some (0, ex_released)
   \<and> map_option timeline_sync (timelines ex_released 30) = Some (Some 10)
   \<and> map_option next_value (prims ex_opened 10) = Some 0
   \<and> map_option next_value (prims ex_allocated 10) = Some 1
   \<and> map_option next_value (prims ex_released 10) = Some 0
   \<and> timeline_run 30 [Ev_alloc ex_alloc_env, Ev_release 5] ex_opened
       = Some (1, 1, ex_released)"
proof -
  have "map_option timeline_sync (timelines ex_released 30) = Some (Some 10)"
    "map_option next_value (prims ex_opened 10) = Some 0"
    "map_option next_value (prims ex_allocated 10) = Some 1"
    "map_option next_value (prims ex_released 10) = Some 0"
    by (simp_all add: ex_released_def ex_defs)
  moreover have "release_rolls_back 5 ex_allocated"
    by (simp add: release_rolls_back_def pvr_sync_alloc_fence_fdget_def deref_sync_data_def
        ex_defs)
  ultimately show ?thesis
    using ex_opened_run ex_allocated_run ex_released_run by simp
qed

text \<open>Each operation keeps the timeline's ownership of its prim; none but allocation and
  release writes the prim's \<open>next_value\<close>.\<close>

lemma sync_pool_get_owns:
  assumes "timeline_owns T ts s"
    and "sync_pool_get env cn ty s = Some (e, sync, s')"
    and "case env of Kmalloc_ok a er fw \<Rightarrow> a \<noteq> ts | Kmalloc_failed \<Rightarrow> True"
  shows "timeline_owns T ts s'" "prims s' ts = prims s ts" "sync \<noteq> Some ts"
    "sync_datas s' = sync_datas s" "timelines s' = timelines s"
  using assms
  by (auto simp add: sync_pool_get_def timeline_owns_def Let_def
      split: list.splits prim_alloc.splits option.splits if_splits) blast+

lemma set_sync_value_owns:
  assumes "timeline_owns T ts s" and "set_sync_value a v s = Some s'"
  shows "timeline_owns T ts s'"
    "map_option next_value (prims s' ts) = map_option next_value (prims s ts)"
  using assms
  by (auto simp add: set_sync_value_def timeline_owns_def split: option.splits if_splits)
    blast+

lemma sync_pool_put_owns:
  assumes "timeline_owns T ts s" and "sync_pool_put a s = Some s'" and "a \<noteq> ts"
  shows "timeline_owns T ts s'"
    "map_option next_value (prims s' ts) = map_option next_value (prims s ts)"
proof -
  obtain v s1 where s1: "set_sync_value a v s = Some s1"
    and s': "s' = s1\<lparr>sync_pool_free_list := a # remove1 a (sync_pool_free_list s1),
                      sync_pool_active_list := remove1 a (sync_pool_active_list s1),
                      sync_pool_size := sync_pool_size s1 + 1\<rparr>
             \<or> s' = s1\<lparr>sync_pool_free_list := remove1 a (sync_pool_free_list s1),
                      sync_pool_active_list := remove1 a (sync_pool_active_list s1),
                      prims := (prims s1)(a := None)\<rparr>"
    using assms(2) by (auto simp add: sync_pool_put_def split: if_splits option.splits)
  note o = set_sync_value_owns [OF assms(1) s1]
  have n: "ts \<notin> set (remove1 a (sync_pool_free_list s1))"
    using o(1) set_remove1_subset [of a "sync_pool_free_list s1"]
    by (auto simp add: timeline_owns_def)
  show "timeline_owns T ts s'"
    using s' o(1) n assms(3) by (auto simp add: timeline_owns_def) blast+
  show "map_option next_value (prims s' ts) = map_option next_value (prims s ts)"
    using s' o(2) assms(3) by auto
qed

lemma free_sync_data_owns:
  assumes "timeline_owns T ts s" and "pvr_sync_free_sync_data p s = Some s'"
  shows "timeline_owns T ts s'" "prims s' ts = prims s ts"
  using assms
  by (auto simp add: pvr_sync_free_sync_data_def pvr_sync_defer_free_def timeline_owns_def
      Let_def split: option.splits if_splits) blast+

lemma free_sync_owns:
  assumes "timeline_owns T ts s" and "pvr_sync_free_sync pt s = Some s'"
  shows "timeline_owns T ts s'" "prims s' ts = prims s ts"
  using assms
  by (auto simp add: pvr_sync_free_sync_def pvr_sync_defer_free_def timeline_owns_def
      Let_def split: option.splits if_splits) blast+

lemma create_sync_data_owns:
  assumes o: "timeline_owns T ts s"
    and c: "pvr_sync_create_sync_data env T s = Some (r, s')"
    and a: "case fence_prim_alloc env of Kmalloc_ok a er fw \<Rightarrow> a \<noteq> ts | Kmalloc_failed \<Rightarrow> True"
  shows "timeline_owns T ts s'" "prims s' ts = prims s ts"
proof -
  obtain tlo where tl: "timelines s T = Some tlo"
    using o by (auto simp add: timeline_owns_def)
  have "timeline_owns T ts s' \<and> prims s' ts = prims s ts"
  proof (cases "kzalloc_sync_data env = None \<or> \<not> kzalloc_kernel env")
    case True
    then have "s' = s"
      using c by (auto simp add: pvr_sync_create_sync_data_def split: option.splits)
    then show ?thesis using o by simp
  next
    case False
    then obtain sda where k: "kzalloc_sync_data env = Some sda" "kzalloc_kernel env"
      by auto
    show ?thesis
    proof (cases "sync_pool_get (fence_prim_alloc env) (tl_name tlo) SYNC_PT_FENCE_TYPE s")
      case None
      then show ?thesis using c k tl by (simp add: pvr_sync_create_sync_data_def)
    next
      case (Some res)
      obtain e sync s1 where res: "res = (e, sync, s1)" by (cases res)
      note g = Some [unfolded res]
      note p = sync_pool_get_owns [OF o g a]
      show ?thesis
      proof (cases "e = PVRSRV_OK")
        case False
        then have "s' = s1"
          using c k tl g by (simp add: pvr_sync_create_sync_data_def)
        then show ?thesis using p by simp
      next
        case True
        then obtain fs where f: "sync = Some fs"
          and e: "s' = s1\<lparr>sync_datas := (sync_datas s1)(sda \<mapsto>
                  \<lparr>kernel = Some \<lparr>fence_sync = fs, cleanup_sync = None\<rparr>,
                   timeline_fence_value = 0, timeline_update_value = 0, refcount = 1\<rparr>)\<rparr>"
          using c k tl g
          by (auto simp add: pvr_sync_create_sync_data_def split: option.splits)
        have "fs \<noteq> ts" using p(3) f by simp
        then show ?thesis using p(1,2) e by (auto simp add: timeline_owns_def)
      qed
    qed
  qed
  then show "timeline_owns T ts s'" "prims s' ts = prims s ts" by simp_all
qed

lemma owns_stamp:
  assumes "timeline_owns T ts s" and "sync_datas s sda = Some sd"
  shows "timeline_owns T ts
           (s\<lparr>prims := (prims s)(ts \<mapsto> tp),
              sync_datas := (sync_datas s)(sda \<mapsto>
                sd\<lparr>timeline_fence_value := a, timeline_update_value := b\<rparr>)\<rparr>)"
  using assms by (auto simp add: timeline_owns_def)

lemma alloc_fence_counts:
  assumes o: "timeline_owns T ts s"
    and a: "event_avoids ts (Ev_alloc env)"
    and r: "pvr_sync_ioctl_alloc_fence env T s = Some (err, out, s')"
  shows "timeline_owns T ts s'
    \<and> map_option next_value (prims s' ts)
        = map_option (\<lambda>v. v + (if err = 0 \<and> map_option fst out = Some False then 1 else 0))
            (map_option next_value (prims s ts))"
proof (cases "af_fd env < 0 \<or> \<not> af_access_read env \<or> \<not> af_access_write env
              \<or> \<not> af_kzalloc_alloc_data env")
  case True
  then have "s' = s \<and> err \<noteq> 0"
    using r by (auto simp add: pvr_sync_ioctl_alloc_fence_def EFAULT_def ENOMEM_def
        split: if_splits)
  then show ?thesis using o by (simp add: option.map_ident)
next
  case False
  note pre = False
  show ?thesis
  proof (cases "pvr_sync_create_sync_data (af_sync_data env) T s")
    case None
    then show ?thesis using r pre by (simp add: pvr_sync_ioctl_alloc_fence_def)
  next
    case (Some res)
    obtain p s1 where res: "res = (p, s1)" by (cases res)
    note c = Some [unfolded res]
    have a': "case fence_prim_alloc (af_sync_data env) of
                Kmalloc_ok a er fw \<Rightarrow> a \<noteq> ts | Kmalloc_failed \<Rightarrow> True"
      using a by simp
    note o1 = create_sync_data_owns [OF o c a']
    show ?thesis
    proof (cases p)
      case None
      then have "s' = s1 \<and> err \<noteq> 0"
        using r pre c by (auto simp add: pvr_sync_ioctl_alloc_fence_def ENOMEM_def)
      then show ?thesis using o1 by (simp add: option.map_ident)
    next
      case (Some sda)
      note p = Some
      show ?thesis
      proof (cases "af_getfile env")
        case False
        then obtain s2 where f: "pvr_sync_free_sync_data (Some sda) s1 = Some s2"
          and e: "s' = s2" "err \<noteq> 0"
          using r pre c p
          by (auto simp add: pvr_sync_ioctl_alloc_fence_def ENOMEM_def split: option.splits)
        show ?thesis
          using free_sync_data_owns [OF o1(1) f] o1(2) e by (simp add: option.map_ident)
      next
        case True
        note gf = True
        obtain tlo where tl: "timelines s1 T = Some tlo" "timeline_sync tlo = Some ts"
          using o1(1) by (auto simp add: timeline_owns_def)
        obtain met tp sd where m: "is_sync_met ts s1 = Some met"
          and tp: "prims s1 ts = Some tp" and sd: "sync_datas s1 sda = Some sd"
          using r pre c p gf tl
          by (auto simp add: pvr_sync_ioctl_alloc_fence_def split: option.splits)
        define idle where "idle = (met \<noteq> 0 \<and> fencing_enabled tlo = False)"
        define s2 where "s2 = s1\<lparr>prims := (prims s1)(ts \<mapsto>
              tp\<lparr>next_value := (if \<not> idle then next_value tp + 1 else next_value tp)\<rparr>),
            sync_datas := (sync_datas s1)(sda \<mapsto>
              sd\<lparr>timeline_fence_value := next_value tp,
                 timeline_update_value :=
                   (if \<not> idle then next_value tp + 1 else next_value tp)\<rparr>)\<rparr>"
        have o2: "timeline_owns T ts s2"
          unfolding s2_def by (rule owns_stamp [OF o1(1) sd])
        show ?thesis
        proof (cases "af_access_reply env \<and> af_copy_to_user env")
          case True
          then have e: "err = 0" "out = Some (idle, af_fd env)"
            "s' = s2\<lparr>files := (files s2)(af_fd env \<mapsto>
                    Alloc_file \<lparr>ad_sync_data = Some sda, ad_timeline = T\<rparr>)\<rparr>"
            using r pre c p gf tl m tp sd
            by (auto simp add: pvr_sync_ioctl_alloc_fence_def Let_def idle_def s2_def)
          have "timeline_owns T ts s'"
            using o2 e(3) by (simp add: timeline_owns_def)
          moreover have "map_option next_value (prims s' ts)
              = Some (next_value tp + (if \<not> idle then 1 else 0))"
            using e(3) by (simp add: s2_def)
          moreover have "prims s ts = Some tp"
            using o1(2) tp by simp
          ultimately show ?thesis
            using e(1,2) by simp
        next
          case False
          define s3 where "s3 = s2\<lparr>prims := (prims s2)(ts \<mapsto>
                tp\<lparr>next_value := next_value tp\<rparr>)\<rparr>"
          have o3: "timeline_owns T ts s3"
            using o2 by (simp add: s3_def timeline_owns_def)
          from False obtain s4 where f: "pvr_sync_free_sync_data (Some sda) s3 = Some s4"
            and e: "s' = s4" "err \<noteq> 0"
            using r pre c p gf tl m tp sd
            by (auto simp add: pvr_sync_ioctl_alloc_fence_def Let_def idle_def s2_def s3_def
                EFAULT_def split: option.splits)
          have "prims s3 ts = Some tp" by (simp add: s3_def)
          then show ?thesis
            using free_sync_data_owns [OF o3 f] o1(2) tp e by (simp add: option.map_ident)
        qed
      qed
    qed
  qed
qed

lemma complete_sync_owns:
  assumes "timeline_owns T ts s" and "complete_sync a s = Some s'"
  shows "timeline_owns T ts s'"
    "map_option next_value (prims s' ts) = map_option next_value (prims s ts)"
    "sync_datas s' = sync_datas s"
  using assms
  by (auto simp add: complete_sync_def timeline_owns_def split: option.splits if_splits)
    blast+

lemma enable_fencing_owns:
  assumes "timeline_owns T ts s"
    and "pvr_sync_ioctl_enable_fencing ar cu T s = Some (err, s')"
  shows "timeline_owns T ts s'" "prims s' ts = prims s ts"
  using assms
  by (auto simp add: pvr_sync_ioctl_enable_fencing_def timeline_owns_def
      split: option.splits if_splits) blast+

lemma query_update_owns:
  assumes "timeline_owns T ts s"
    and "pvr_sync_query_sync_update fd m b s = Some (e, b', s')"
  shows "timeline_owns T ts s'" "prims s' ts = prims s ts"
  using assms
  by (auto simp add: pvr_sync_query_sync_update_def timeline_owns_def Let_def
      split: option.splits if_splits) blast+

lemma create_sync_owns:
  assumes o: "timeline_owns T ts s"
    and c: "pvr_sync_create_sync ok tla p s = Some (pt, s')"
  shows "timeline_owns T ts s'"
    "map_option next_value (prims s' ts) = map_option next_value (prims s ts)"
proof -
  have "timeline_owns T ts s'
    \<and> map_option next_value (prims s' ts) = map_option next_value (prims s ts)"
  proof (cases ok)
    case True
    then show ?thesis using o c by (simp add: pvr_sync_create_sync_def)
  next
    case False
    then obtain sda sd where sd: "p = Some sda" "sync_datas s sda = Some sd"
      using c by (auto simp add: pvr_sync_create_sync_def split: option.splits)
    show ?thesis
    proof (cases "kernel sd")
      case None
      then have "s' = s\<lparr>sync_datas := (sync_datas s)(sda := None)\<rparr>"
        using c False sd by (simp add: pvr_sync_create_sync_def)
      then show ?thesis using o by (auto simp add: timeline_owns_def)
    next
      case (Some k)
      then obtain a s1 s2 where cs: "complete_sync a s = Some s1"
        and pp: "sync_pool_put (fence_sync k) s1 = Some s2"
        and e: "s' = s2\<lparr>sync_datas := (sync_datas s2)(sda := None)\<rparr>"
        using c False sd by (auto simp add: pvr_sync_create_sync_def split: option.splits)
      note o1 = complete_sync_owns [OF o cs]
      have "fence_sync k \<noteq> ts"
        using o sd(2) Some by (auto simp add: timeline_owns_def)
      note o2 = sync_pool_put_owns [OF o1(1) pp this]
      show ?thesis using o1(2) o2 e by (auto simp add: timeline_owns_def)
    qed
  qed
  then show "timeline_owns T ts s'"
    "map_option next_value (prims s' ts) = map_option next_value (prims s ts)"
    by simp_all
qed

lemma owns_files:
  "timeline_owns T ts (s\<lparr>files := f\<rparr>) = timeline_owns T ts s"
  by (simp add: timeline_owns_def)

lemma create_fence_owns:
  assumes o: "timeline_owns T ts s"
    and c: "pvr_sync_ioctl_create_fence env T s = Some (err, out, s')"
  shows "timeline_owns T ts s'"
    "map_option next_value (prims s' ts) = map_option next_value (prims s ts)"
proof -
  have "timeline_owns T ts s'
    \<and> map_option next_value (prims s' ts) = map_option next_value (prims s ts)"
  proof (cases "s' = s")
    case True
    then show ?thesis using o by simp
  next
    case False
    then obtain fd nm ad where rq: "cf_copy_from_user env = Some (fd, nm)"
      and ad: "pvr_sync_alloc_fence_fdget fd s = Some ad"
      and pre: "\<not> cf_fd env < 0" "cf_access_read env" "ad_timeline ad = T"
      using c
      by (auto simp add: pvr_sync_ioctl_create_fence_def split: option.splits if_splits)
    define s1 where "s1 = s\<lparr>files := (files s)(fd \<mapsto>
                        Alloc_file (ad\<lparr>ad_sync_data := None\<rparr>))\<rparr>"
    have o1: "timeline_owns T ts s1" "prims s1 = prims s"
      using o by (simp_all add: s1_def owns_files)
    obtain pt s2 where cs: "pvr_sync_create_sync (cf_sync_pt_create env) T (ad_sync_data ad) s1
        = Some (pt, s2)"
      using c rq ad pre
      by (auto simp add: pvr_sync_ioctl_create_fence_def Let_def s1_def split: option.splits)
    note o2 = create_sync_owns [OF o1(1) cs]
    have c': "(case pt of
          None \<Rightarrow>
            (case pvr_sync_free_sync_data (ad_sync_data ad) s2 of
               None \<Rightarrow> None
             | Some s3 \<Rightarrow> Some (- ENOMEM, None, s3))
        | Some sync_pt \<Rightarrow>
            if \<not> cf_sync_fence_create env then
              (case pvr_sync_free_sync sync_pt s2 of
                 None \<Rightarrow> None
               | Some s3 \<Rightarrow>
                   (case pvr_sync_free_sync_data (ad_sync_data ad) s3 of
                      None \<Rightarrow> None
                    | Some s4 \<Rightarrow> Some (- ENOMEM, None, s4)))
            else if \<not> cf_access_reply env \<or> \<not> cf_copy_to_user env then
              (case pvr_sync_free_sync sync_pt s2 of
                 None \<Rightarrow> None
               | Some s3 \<Rightarrow>
                   (case pvr_sync_free_sync_data (ad_sync_data ad) s3 of
                      None \<Rightarrow> None
                    | Some s4 \<Rightarrow> Some (- EFAULT, None, s4)))
            else
              Some (0, Some (cf_fd env),
                s2\<lparr>files := (files s2)(cf_fd env \<mapsto>
                     Fence_file \<lparr>fence_name = nm, pt_list = [sync_pt]\<rparr>)\<rparr>))
        = Some (err, out, s')"
      using c rq ad pre cs
      by (simp add: pvr_sync_ioctl_create_fence_def Let_def s1_def)
    have "timeline_owns T ts s' \<and> prims s' ts = prims s2 ts"
    proof (cases pt)
      case None
      then obtain s3 where f: "pvr_sync_free_sync_data (ad_sync_data ad) s2 = Some s3"
        and e: "s' = s3"
        using c' by (auto split: option.splits)
      show ?thesis using free_sync_data_owns [OF o2(1) f] e by simp
    next
      case (Some sync_pt)
      show ?thesis
      proof (cases "cf_sync_fence_create env \<and> cf_access_reply env \<and> cf_copy_to_user env")
        case True
        then have "s' = s2\<lparr>files := (files s2)(cf_fd env \<mapsto>
                     Fence_file \<lparr>fence_name = nm, pt_list = [sync_pt]\<rparr>)\<rparr>"
          using c' Some by auto
        then show ?thesis using o2(1) by (simp add: owns_files)
      next
        case False
        then obtain s3 s4 where f3: "pvr_sync_free_sync sync_pt s2 = Some s3"
          and f4: "pvr_sync_free_sync_data (ad_sync_data ad) s3 = Some s4"
          and e: "s' = s4"
          using c' Some by (auto split: option.splits if_splits)
        note o3 = free_sync_owns [OF o2(1) f3]
        show ?thesis using free_sync_data_owns [OF o3(1) f4] o3(2) e by simp
      qed
    qed
    then show ?thesis using o2(2) o1(2) by simp
  qed
  then show "timeline_owns T ts s'"
    "map_option next_value (prims s' ts) = map_option next_value (prims s ts)"
    by simp_all
qed

lemma alloc_release_owns:
  assumes o: "timeline_owns T ts s"
    and r: "pvr_sync_alloc_release fd s = Some (err, s')"
    and n: "\<not> release_rolls_back fd s"
  shows "timeline_owns T ts s'" "prims s' ts = prims s ts"
proof -
  obtain ad where ad: "files s fd = Some (Alloc_file ad)"
    using r by (auto simp add: pvr_sync_alloc_release_def split: option.splits fd_file.splits)
  obtain s2 where f: "pvr_sync_free_sync_data (ad_sync_data ad) s = Some s2"
    and e: "s' = s2\<lparr>files := (files s2)(fd := None)\<rparr>"
    using r n ad
    by (auto simp add: pvr_sync_alloc_release_def release_rolls_back_def Let_def
        pvr_sync_alloc_fence_fdget_def deref_sync_data_def
        split: option.splits if_splits)
  show "timeline_owns T ts s'" "prims s' ts = prims s ts"
    using free_sync_data_owns [OF o f] e by (simp_all add: owns_files)
qed

lemma timeline_run_Cons:
  "timeline_run T (ev # evs) s =
     (case timeline_run T [ev] s of
        None \<Rightarrow> None
      | Some (n1, r1, s1) \<Rightarrow>
          (case timeline_run T evs s1 of
             None \<Rightarrow> None
           | Some (n2, r2, s2) \<Rightarrow> Some (n1 + n2, r1 + r2, s2)))"
  by (cases ev) (auto split: option.splits)

lemma timeline_run_append:
  "timeline_run T (es1 @ es2) s =
     (case timeline_run T es1 s of
        None \<Rightarrow> None
      | Some (n1, r1, s1) \<Rightarrow>
          (case timeline_run T es2 s1 of
             None \<Rightarrow> None
           | Some (n2, r2, s2) \<Rightarrow> Some (n1 + n2, r1 + r2, s2)))"
proof (induction es1 arbitrary: s)
  case Nil
  show ?case by (auto split: option.splits)
next
  case (Cons ev es1)
  have "timeline_run T ((ev # es1) @ es2) s = timeline_run T (ev # (es1 @ es2)) s"
    by simp
  also have "\<dots> = (case timeline_run T [ev] s of
        None \<Rightarrow> None
      | Some (n1, r1, s1) \<Rightarrow>
          (case timeline_run T (es1 @ es2) s1 of
             None \<Rightarrow> None
           | Some (n2, r2, s2) \<Rightarrow> Some (n1 + n2, r1 + r2, s2)))"
    by (rule timeline_run_Cons)
  finally show ?case
    unfolding timeline_run_Cons [of T ev es1] Cons.IH
    by (auto split: option.splits)
qed

lemma timeline_step_counts:
  assumes o: "timeline_owns T ts s"
    and a: "event_avoids ts ev"
    and r: "timeline_run T [ev] s = Some (n, 0, s')"
  shows "timeline_owns T ts s'
    \<and> map_option next_value (prims s' ts)
        = map_option (\<lambda>v. v + of_nat n) (map_option next_value (prims s ts))"
proof (cases ev)
  case (Ev_alloc env)
  then obtain err out where
    x: "pvr_sync_ioctl_alloc_fence env T s = Some (err, out, s')"
    and n: "n = (if err = 0 \<and> map_option fst out = Some False then 1 else 0)"
    using r by (auto split: option.splits)
  define c where "c = (err = 0 \<and> map_option fst out = Some False)"
  have n': "n = (if c then 1 else 0)"
    using n unfolding c_def .
  note k = alloc_fence_counts [OF o a [unfolded Ev_alloc] x, folded c_def]
  show ?thesis
    using k n' by (cases c) simp_all
next
  case (Ev_enable_fencing f)
  then obtain err where x: "pvr_sync_ioctl_enable_fencing True (Some f) T s = Some (err, s')"
    and n: "n = 0"
    using r by (auto split: option.splits)
  show ?thesis using enable_fencing_owns [OF o x] n by (simp add: option.map_ident)
next
  case (Ev_query_update fd m b)
  then obtain e b' where x: "pvr_sync_query_sync_update fd m b s = Some (e, b', s')"
    and n: "n = 0"
    using r by (auto split: option.splits)
  show ?thesis using query_update_owns [OF o x] n by (simp add: option.map_ident)
next
  case (Ev_create env)
  then obtain err out where x: "pvr_sync_ioctl_create_fence env T s = Some (err, out, s')"
    and n: "n = 0"
    using r by (auto split: option.splits)
  show ?thesis using create_fence_owns [OF o x] n by (simp add: option.map_ident)
next
  case (Ev_release fd)
  then obtain err where x: "pvr_sync_alloc_release fd s = Some (err, s')"
    and n: "n = 0" and b: "\<not> release_rolls_back fd s"
    using r by (auto split: option.splits if_splits)
  show ?thesis using alloc_release_owns [OF o x b] n by (simp add: option.map_ident)
next
  case (Ev_hw_write p v)
  then have x: "set_sync_value p v s = Some s'" and n: "n = 0"
    using r by (auto split: option.splits)
  show ?thesis using set_sync_value_owns [OF o x] n by (simp add: option.map_ident)
qed

lemma timeline_run_counts:
  assumes "timeline_owns T ts s"
    and "list_all (event_avoids ts) evs"
    and "timeline_run T evs s = Some (n, 0, s')"
  shows "timeline_owns T ts s'
    \<and> map_option next_value (prims s' ts)
        = map_option (\<lambda>v. v + of_nat n) (map_option next_value (prims s ts))"
  using assms
proof (induction evs arbitrary: s n)
  case Nil
  then show ?case by (simp add: option.map_ident)
next
  case (Cons ev evs)
  from Cons.prems(3) obtain n1 s1 n2 where
    r1: "timeline_run T [ev] s = Some (n1, 0, s1)"
    and r2: "timeline_run T evs s1 = Some (n2, 0, s')"
    and n: "n = n1 + n2"
    unfolding timeline_run_Cons [of T ev evs]
    by (auto split: option.splits)
  have a: "event_avoids ts ev" "list_all (event_avoids ts) evs"
    using Cons.prems(2) by simp_all
  note s1 = timeline_step_counts [OF Cons.prems(1) a(1) r1]
  note s2 = Cons.IH [OF conjunct1 [OF s1] a(2) r2]
  show ?case
    using s1 s2 n by (simp add: option.map_comp comp_def add.assoc)
qed

text \<open>
  C5, amended: an allocation that replies "not idle" adds one to the \<open>next_value\<close> of
  the timeline's prim (modulo \<open>2^32\<close>), and no other operation but the release of an
  unused handle writes it. So along any sequence of allocations, enable-fencing calls,
  update-mode queries, fence creations, hardware writes and releases in which no release
  rolls the timeline back, the \<open>next_value\<close> is, after every prefix, its starting
  value (0 at open) plus the number of non-idle allocations made so far, and that number
  only grows. A release that rolls back sets the \<open>next_value\<close> to the handle's
  baseline instead, so the value is not non-decreasing in general.
\<close>

theorem timeline_next_value_counts:
  assumes "timeline_owns T ts s"
    and "list_all (event_avoids ts) (es1 @ es2)"
    and "timeline_run T (es1 @ es2) s = Some (n, 0, s')"
  shows "\<exists>n1 s1. timeline_run T es1 s = Some (n1, 0, s1) \<and> n1 \<le> n
    \<and> map_option next_value (prims s1 ts)
        = map_option (\<lambda>v. v + of_nat n1) (map_option next_value (prims s ts))
    \<and> map_option next_value (prims s' ts)
        = map_option (\<lambda>v. v + of_nat n) (map_option next_value (prims s ts))
    \<and> prims s' ts \<noteq> None"
proof -
  from assms(3) obtain n1 s1 n2 where
    r1: "timeline_run T es1 s = Some (n1, 0, s1)"
    and n: "n = n1 + n2"
    unfolding timeline_run_append
    by (auto split: option.splits)
  have a: "list_all (event_avoids ts) es1"
    using assms(2) by simp
  note c1 = timeline_run_counts [OF assms(1) a r1]
  note c = timeline_run_counts [OF assms]
  have "prims s' ts \<noteq> None"
    using c by (simp add: timeline_owns_def)
  then show ?thesis
    using r1 n c1 c by simp
qed

theorem timeline_next_value_counts_witness:
  "timeline_owns 30 10 ex_opened
   \<and> timeline_run 30
       ([Ev_alloc ex_alloc_env] @ [Ev_query_update 5 4 (empty_buffers 4), Ev_enable_fencing True])
       ex_opened = Some (1, 0, ex_fenced)
   \<and> timeline_run 30 [Ev_alloc ex_alloc_env] ex_opened = Some (1, 0, ex_allocated)
   \<and> map_option next_value (prims ex_opened 10) = Some 0
   \<and> map_option next_value (prims ex_allocated 10) = Some 1
   \<and> map_option next_value (prims ex_fenced 10) = Some 1"
proof -
  have h1: "timeline_owns 30 10 ex_opened"
    by (simp add: timeline_owns_def ex_defs)
  have h2: "list_all (event_avoids 10)
      ([Ev_alloc ex_alloc_env] @ [Ev_query_update 5 4 (empty_buffers 4), Ev_enable_fencing True])"
    by (simp add: ex_defs)
  have e: "pvr_sync_ioctl_enable_fencing True (Some True) 30 ex_queried = Some (0, ex_fenced)"
    by (simp add: pvr_sync_ioctl_enable_fencing_def ex_fenced_def ex_queried_def ex_defs)
  have h3: "timeline_run 30
      ([Ev_alloc ex_alloc_env] @ [Ev_query_update 5 4 (empty_buffers 4), Ev_enable_fencing True])
      ex_opened = Some (1, 0, ex_fenced)"
    using ex_allocated_run ex_queried_run e by simp
  have v: "map_option next_value (prims ex_opened 10) = Some 0"
    by (simp add: ex_defs)
  show ?thesis
    using timeline_next_value_counts [OF h1 h2 h3] h1 h3 v
      ex_allocated_run by auto
qed

end
